theory Spec2Isabelle
  imports Main
begin

section \<open>Data model\<close>

text \<open>
  \<^verbatim>\<open>src/types.ts\<close>: a message is \<^verbatim>\<open>{ id: string; role: 'user' | 'agent'; content: string }\<close>.
  The field \<^verbatim>\<open>id\<close> is called \<open>msg_id\<close> here, since \<open>id\<close> is the identity function of HOL.

  A JavaScript string is a sequence of UTF-16 code units: \<^verbatim>\<open>length\<close> counts them and
  \<^verbatim>\<open>charAt\<close> returns one of them. A \<open>jsstring\<close> is the list of the code units, each a
  number below 65536; \<open>utf16\<close> gives the code units of a literal whose characters lie
  below 256 (each character is one code unit, with the character's code).
\<close>

type_synonym jsstring = "nat list"

definition utf16 :: "string \<Rightarrow> jsstring" where
  "utf16 cs = map of_char cs"

datatype Role = User | Agent

record message =
  msg_id :: jsstring
  role :: Role
  content :: jsstring

text \<open>
  The part of the DOM that \<^verbatim>\<open>ChatInterface\<close> (the version of
  \<^verbatim>\<open>src/components/ChatInterface.tsx\<close> with \<^verbatim>\<open>isTouchingRef\<close>) reads and writes.
  Lengths are whole layout units (CSS pixels).

  \<^item> \<open>viewport\<close> is \<^verbatim>\<open>window.visualViewport\<close>: its \<^verbatim>\<open>height\<close> and \<^verbatim>\<open>offsetTop\<close>.
  \<^item> \<open>container\<close> is the inline style of the outer \<^verbatim>\<open>div\<close> (\<^verbatim>\<open>containerRef\<close>):
    \<^verbatim>\<open>style.height\<close> and \<^verbatim>\<open>style.transform\<close>.
  \<^item> \<open>scroll_area\<close> is the message list (\<^verbatim>\<open>scrollAreaRef\<close>): \<^verbatim>\<open>scrollTop\<close>,
    \<^verbatim>\<open>scrollHeight\<close>, \<^verbatim>\<open>clientHeight\<close>. The fields hold what the element reports when the
    code reads them and, for \<open>scrollTop\<close>, the value the code last assigned (a browser
    shows the content no further down than \<^verbatim>\<open>scrollHeight - clientHeight\<close>; the model
    keeps the assigned value).
\<close>

datatype css_length = Auto | Percent int | Px int

datatype css_transform = NoTransform | Translate3d int int int | TranslateY int

record viewport =
  vv_height :: int
  vv_offsetTop :: int

record container =
  style_height :: css_length
  style_transform :: css_transform

record scroll_area =
  scrollTop :: int
  scrollHeight :: int
  clientHeight :: int

text \<open>
  The closure of the \<^verbatim>\<open>setInterval\<close> callback in \<^verbatim>\<open>sendMessage\<close>: the captured
  \<^verbatim>\<open>agentMsgId\<close>, \<^verbatim>\<open>responseText\<close> and the counter \<^verbatim>\<open>let i = 0\<close>.
\<close>

record stream =
  agentMsgId :: jsstring
  sourceText :: jsstring
  counter_i :: nat

text \<open>
  The state of the component: the React state (\<open>messages\<close>, \<open>input\<close>, \<open>isStreaming\<close>),
  the refs (\<open>None\<close> is a ref whose \<^verbatim>\<open>current\<close> is \<^verbatim>\<open>null\<close>), whether
  \<^verbatim>\<open>document.activeElement\<close> is the textarea, and the timers the component has set and
  not yet cleared: the 600 ms reply timeouts, the 300 ms focus timeouts, and the running
  intervals, each under the handle \<^verbatim>\<open>setInterval\<close> returned.
  \<open>textareaRef\<close> holds the textarea's \<^verbatim>\<open>style.height\<close>.
\<close>

record state =
  messages :: "message list"
  input :: jsstring
  isStreaming :: bool
  isTouchingRef :: bool
  containerRef :: "container option"
  scrollAreaRef :: "scroll_area option"
  textareaRef :: "css_length option"
  textareaFocused :: bool
  replyTimeouts :: nat
  focusTimeouts :: nat
  intervals :: "(nat \<times> stream) list"
  nextTimerId :: nat

section \<open>Strings\<close>

text \<open>\<^verbatim>\<open>Number.prototype.toString\<close> on a non-negative integer: its decimal digits.\<close>

fun toString :: "nat \<Rightarrow> jsstring" where
  "toString n =
     (if n < 10 then [utf16 ''0123456789'' ! n]
      else toString (n div 10) @ [utf16 ''0123456789'' ! (n mod 10)])"

declare toString.simps [simp del]

text \<open>
  \<^verbatim>\<open>String.prototype.trim\<close> removes white space and line terminators from both ends. White
  space is TAB (U+0009), VT (U+000B), FF (U+000C), the byte order mark (U+FEFF) and the
  space separators of Unicode: U+0020, U+00A0, U+1680, U+2000 to U+200A, U+202F, U+205F
  and U+3000. The line terminators are LF (U+000A), CR (U+000D), U+2028 and U+2029.
\<close>

definition isWhiteSpace :: "nat \<Rightarrow> bool" where
  "isWhiteSpace c \<longleftrightarrow>
     c = 0x0009 \<or> c = 0x000B \<or> c = 0x000C \<or> c = 0xFEFF
     \<or> c = 0x0020 \<or> c = 0x00A0 \<or> c = 0x1680 \<or> (0x2000 \<le> c \<and> c \<le> 0x200A)
     \<or> c = 0x202F \<or> c = 0x205F \<or> c = 0x3000
     \<or> c = 0x000A \<or> c = 0x000D \<or> c = 0x2028 \<or> c = 0x2029"

definition trim :: "jsstring \<Rightarrow> jsstring" where
  "trim t = rev (dropWhile isWhiteSpace (rev (dropWhile isWhiteSpace t)))"

text \<open>\<^verbatim>\<open>String.prototype.charAt\<close>: the empty string when the index is out of range.\<close>

definition charAt :: "jsstring \<Rightarrow> nat \<Rightarrow> jsstring" where
  "charAt t k = (if k < length t then [t ! k] else [])"

section \<open>Viewport synchronisation and scroll correction\<close>

text \<open>
  \<^verbatim>\<open>handleResize\<close> (lines 285-312). The argument is \<^verbatim>\<open>window.visualViewport\<close> as the
  handler finds it.
\<close>

definition handleResize :: "viewport option \<Rightarrow> state \<Rightarrow> state" where
  "handleResize vvo s =
     (case containerRef s of
        None \<Rightarrow> s
      | Some c \<Rightarrow>
         (case vvo of
            None \<Rightarrow> s
          | Some vv \<Rightarrow>
             (let c1 = c\<lparr>style_height := Px (vv_height vv)\<rparr>;
                  c2 = c1\<lparr>style_transform := Translate3d 0 (vv_offsetTop vv) 0\<rparr>;
                  s1 = s\<lparr>containerRef := Some c2\<rparr>
              in if textareaFocused s1 \<and> \<not> isTouchingRef s1 then
                   (case scrollAreaRef s1 of
                      None \<Rightarrow> s1
                    | Some a \<Rightarrow>
                       (let isAtBottom = scrollHeight a - scrollTop a - clientHeight a < 100
                        in if isAtBottom
                           then s1\<lparr>scrollAreaRef := Some (a\<lparr>scrollTop := scrollHeight a\<rparr>)\<rparr>
                           else s1))
                 else s1)))"

text \<open>\<^verbatim>\<open>handleTouchStart\<close> and \<^verbatim>\<open>handleTouchEnd\<close> (lines 323-324).\<close>

definition handleTouchStart :: "state \<Rightarrow> state" where
  "handleTouchStart s = s\<lparr>isTouchingRef := True\<rparr>"

definition handleTouchEnd :: "state \<Rightarrow> state" where
  "handleTouchEnd s = s\<lparr>isTouchingRef := False\<rparr>"

text \<open>
  The effect on \<^verbatim>\<open>[messages, isStreaming]\<close> (lines 368-373, "Scroll to bottom when
  messages change").
\<close>

definition scrollToBottomEffect :: "state \<Rightarrow> state" where
  "scrollToBottomEffect s =
     (case scrollAreaRef s of
        None \<Rightarrow> s
      | Some a \<Rightarrow> s\<lparr>scrollAreaRef := Some (a\<lparr>scrollTop := scrollHeight a\<rparr>)\<rparr>)"

text \<open>
  The callback that \<^verbatim>\<open>handleFocus\<close> schedules after 300 ms (lines 356-363).
  \<^verbatim>\<open>dispatchEvent(new Event('resize'))\<close> runs the registered listener \<^verbatim>\<open>handleResize\<close>
  before it returns.
\<close>

definition handleFocusCallback :: "viewport option \<Rightarrow> state \<Rightarrow> state" where
  "handleFocusCallback vvo s =
     (case vvo of
        None \<Rightarrow> s
      | Some vv \<Rightarrow>
         (let s1 = handleResize vvo s
          in case scrollAreaRef s1 of
               None \<Rightarrow> s1
             | Some a \<Rightarrow> s1\<lparr>scrollAreaRef := Some (a\<lparr>scrollTop := scrollHeight a\<rparr>)\<rparr>))"

text \<open>
  \<^verbatim>\<open>handleFocus\<close> (lines 354-364), run when the textarea receives focus: it schedules the
  callback above.
\<close>

definition handleFocus :: "state \<Rightarrow> state" where
  "handleFocus s = s\<lparr>focusTimeouts := focusTimeouts s + 1\<rparr>"

text \<open>
  \<^verbatim>\<open>textareaRef.current.focus()\<close>: the textarea becomes the active element, and when it
  was not, its \<^verbatim>\<open>onFocus\<close> handler runs.
\<close>

definition focusTextarea :: "state \<Rightarrow> state" where
  "focusTextarea s =
     (if textareaFocused s then s else handleFocus (s\<lparr>textareaFocused := True\<rparr>))"

text \<open>
  \<^verbatim>\<open>handleVisualViewportChange\<close> of the version in \<^verbatim>\<open>src/unnamed/part_001\<close>
  (lines 24-39), on the page it touches: the panel (\<^verbatim>\<open>viewportRef\<close>) and the window's
  scroll offset, which \<^verbatim>\<open>window.scrollTo(0, 0)\<close> resets.
\<close>

record page =
  viewportRef :: "container option"
  windowScroll :: "int \<times> int"

definition handleVisualViewportChange :: "viewport option \<Rightarrow> page \<Rightarrow> page" where
  "handleVisualViewportChange vvo p =
     (case viewportRef p of
        None \<Rightarrow> p
      | Some c \<Rightarrow>
         (case vvo of
            None \<Rightarrow> p
          | Some vv \<Rightarrow>
             (let c1 = c\<lparr>style_height := Px (vv_height vv)\<rparr>;
                  c2 = c1\<lparr>style_transform := TranslateY (vv_offsetTop vv)\<rparr>
              in p\<lparr>viewportRef := Some c2, windowScroll := (0, 0)\<rparr>)))"

section \<open>Message submission and the streamed reply\<close>

text \<open>The canned response of \<^verbatim>\<open>sendMessage\<close> (line 398).\<close>

definition responseText :: jsstring where
  "responseText = utf16 ''Here is a smooth, non-janky response that streams in without breaking your layout. Notice how the keyboard interactions on mobile should feel much more native now.''"

text \<open>
  \<^verbatim>\<open>sendMessage\<close> up to and including \<^verbatim>\<open>setTimeout(..., 600)\<close> (lines 376-394, 413).
  \<open>now\<close> is the value of \<^verbatim>\<open>Date.now()\<close>.
\<close>

definition sendMessage :: "nat \<Rightarrow> state \<Rightarrow> state" where
  "sendMessage now s =
     (if trim (input s) = [] then s
      else
        (let userText = input s;
             userMsg = \<lparr>msg_id = toString now, role = User, content = userText\<rparr>;
             s1 = s\<lparr>messages := messages s @ [userMsg]\<rparr>;
             s2 = s1\<lparr>input := []\<rparr>;
             s3 = s2\<lparr>isStreaming := True\<rparr>;
             s4 = (case textareaRef s3 of
                     None \<Rightarrow> s3
                   | Some h \<Rightarrow> focusTextarea (s3\<lparr>textareaRef := Some Auto\<rparr>))
         in s4\<lparr>replyTimeouts := replyTimeouts s4 + 1\<rparr>))"

text \<open>
  The callback of the 600 ms timeout (lines 394-413): it appends the empty agent message
  and starts the interval. \<open>startStream\<close> is the callback with the response text as a
  parameter; the source's callback is \<open>agentReply\<close>.
\<close>

definition startStream :: "jsstring \<Rightarrow> nat \<Rightarrow> state \<Rightarrow> state" where
  "startStream txt now s =
     (let aid = toString (now + 1);
          s1 = s\<lparr>messages := messages s @ [\<lparr>msg_id = aid, role = Agent, content = []\<rparr>]\<rparr>;
          interval = nextTimerId s1
      in s1\<lparr>intervals := intervals s1 @ [(interval, \<lparr>agentMsgId = aid, sourceText = txt, counter_i = 0\<rparr>)],
            nextTimerId := interval + 1\<rparr>)"

definition agentReply :: "nat \<Rightarrow> state \<Rightarrow> state" where
  "agentReply now s = startStream responseText now s"

text \<open>
  \<^verbatim>\<open>clearInterval(interval)\<close> removes the timer with that handle; the assignment
  \<^verbatim>\<open>i++\<close> updates the counter in the closure of the timer with that handle.
\<close>

definition clearInterval :: "nat \<Rightarrow> (nat \<times> stream) list \<Rightarrow> (nat \<times> stream) list" where
  "clearInterval h ts = filter (\<lambda>p. fst p \<noteq> h) ts"

definition setCounter :: "nat \<Rightarrow> nat \<Rightarrow> (nat \<times> stream) list \<Rightarrow> (nat \<times> stream) list" where
  "setCounter h k ts = map (\<lambda>p. if fst p = h then (fst p, (snd p)\<lparr>counter_i := k\<rparr>) else p) ts"

text \<open>
  The callback of the 30 ms interval (lines 401-412), for the interval with handle \<open>h\<close>.
  An interval that is not running has no callback to run.

  The callback hands \<^verbatim>\<open>setMessages\<close> an updater function,
  \<^verbatim>\<open>prev => prev.map(msg => ... msg.content + responseText.charAt(i) ...)\<close>, and then
  runs \<^verbatim>\<open>i++\<close>. The updater reads the variable \<^verbatim>\<open>i\<close> of the enclosing closure at the
  moment React calls it, and the source does not fix that moment:
  \<^item> \<open>AtRender\<close>: React queues the updater and calls it when it next renders the
    component, after the callback has returned; this is what React documents for updater
    functions ("React will put your updater function in a queue and re-render your
    component. During the next render, React will calculate the next state by applying
    all of the queued updaters to the previous state"). The updater then finds \<^verbatim>\<open>i\<close>
    already incremented.
  \<^item> \<open>Immediate\<close>: React calls the updater before \<^verbatim>\<open>setMessages\<close> returns (a root that
    renders synchronously when a state setter is called from a timer). The updater finds
    \<^verbatim>\<open>i\<close> as it was when the callback started.

  \<open>appendChar st k\<close> is the function mapped over the messages, with \<open>k\<close> the value of
  \<^verbatim>\<open>i\<close> that the updater finds.
\<close>

datatype updater_timing = Immediate | AtRender

definition appendChar :: "stream \<Rightarrow> nat \<Rightarrow> message \<Rightarrow> message" where
  "appendChar st k msg =
     (if msg_id msg = agentMsgId st
      then msg\<lparr>content := content msg @ charAt (sourceText st) k\<rparr>
      else msg)"

definition intervalTick :: "updater_timing \<Rightarrow> nat \<Rightarrow> state \<Rightarrow> state" where
  "intervalTick tm h s =
     (case map_of (intervals s) h of
        None \<Rightarrow> s
      | Some st \<Rightarrow>
         (let i = counter_i st;
              i' = i + 1;
              seen = (case tm of Immediate \<Rightarrow> i | AtRender \<Rightarrow> i');
              s1 = s\<lparr>messages := map (appendChar st seen) (messages s)\<rparr>;
              s2 = s1\<lparr>intervals := setCounter h i' (intervals s1)\<rparr>
          in if i' \<ge> length (sourceText st)
             then s2\<lparr>intervals := clearInterval h (intervals s2), isStreaming := False\<rparr>
             else s2))"

text \<open>\<^verbatim>\<open>handleInput\<close> (lines 340-343): the textarea's value becomes the input; its height
  follows its content up to 150, where \<open>sh\<close> is the textarea's \<^verbatim>\<open>scrollHeight\<close>.\<close>

definition handleInput :: "jsstring \<Rightarrow> int \<Rightarrow> state \<Rightarrow> state" where
  "handleInput v sh s =
     (let s1 = s\<lparr>input := v\<rparr>
      in case textareaRef s1 of
           None \<Rightarrow> s1
         | Some h \<Rightarrow> s1\<lparr>textareaRef := Some (Px (min sh 150))\<rparr>)"

section \<open>The event loop\<close>

text \<open>
  Every callback runs to completion before the next one starts; \<open>step tm e s\<close> is the
  state after the callback of event \<open>e\<close>, under the updater timing \<open>tm\<close>. A callback that sets
  \<open>messages\<close> or \<open>isStreaming\<close> makes React render again and run the effect on
  \<^verbatim>\<open>[messages, isStreaming]\<close>; the step of such an event ends with that effect. A timer
  that is not pending does not fire. \<open>Relayout\<close> and \<open>UserScroll\<close> are the platform
  changing what the message list reports: its content and client heights after layout,
  and its scroll offset when the user scrolls.
\<close>

datatype event =
    Resize "viewport option"
  | TouchStart
  | TouchEnd
  | Focus
  | Blur
  | Typed jsstring int
  | Submit nat
  | ReplyTimeout nat
  | Tick nat
  | FocusTimeout "viewport option"
  | Relayout int int
  | UserScroll int

fun step :: "updater_timing \<Rightarrow> event \<Rightarrow> state \<Rightarrow> state" where
  "step tm (Resize vvo) s = handleResize vvo s"
| "step tm TouchStart s = handleTouchStart s"
| "step tm TouchEnd s = handleTouchEnd s"
| "step tm Focus s = (case textareaRef s of None \<Rightarrow> s | Some h \<Rightarrow> focusTextarea s)"
| "step tm Blur s = s\<lparr>textareaFocused := False\<rparr>"
| "step tm (Typed v sh) s = handleInput v sh s"
| "step tm (Submit now) s =
     (if trim (input s) = [] then sendMessage now s
      else scrollToBottomEffect (sendMessage now s))"
| "step tm (ReplyTimeout now) s =
     (if replyTimeouts s = 0 then s
      else scrollToBottomEffect (agentReply now (s\<lparr>replyTimeouts := replyTimeouts s - 1\<rparr>)))"
| "step tm (Tick h) s =
     (case map_of (intervals s) h of
        None \<Rightarrow> s
      | Some st \<Rightarrow> scrollToBottomEffect (intervalTick tm h s))"
| "step tm (FocusTimeout vvo) s =
     (if focusTimeouts s = 0 then s
      else handleFocusCallback vvo (s\<lparr>focusTimeouts := focusTimeouts s - 1\<rparr>))"
| "step tm (Relayout sh ch) s =
     (case scrollAreaRef s of
        None \<Rightarrow> s
      | Some a \<Rightarrow> s\<lparr>scrollAreaRef := Some (a\<lparr>scrollHeight := sh, clientHeight := ch\<rparr>)\<rparr>)"
| "step tm (UserScroll y) s =
     (case scrollAreaRef s of
        None \<Rightarrow> s
      | Some a \<Rightarrow> s\<lparr>scrollAreaRef := Some (a\<lparr>scrollTop := y\<rparr>)\<rparr>)"

fun run :: "updater_timing \<Rightarrow> state \<Rightarrow> event list \<Rightarrow> state" where
  "run tm s [] = s"
| "run tm s (e # es) = run tm (step tm e s) es"

text \<open>
  The component after mounting: no messages, empty input, not streaming, no touch, the
  container with its fallback style \<^verbatim>\<open>height: '100%'\<close>, no timers. The layout effect has
  run \<^verbatim>\<open>handleResize\<close> once ("Initial sync") and the scroll effect has run once.
\<close>

definition mounted :: "viewport option \<Rightarrow> scroll_area \<Rightarrow> state" where
  "mounted vvo a =
     scrollToBottomEffect (handleResize vvo
       \<lparr>messages = [], input = [], isStreaming = False, isTouchingRef = False,
        containerRef = Some \<lparr>style_height = Percent 100, style_transform = NoTransform\<rparr>,
        scrollAreaRef = Some a, textareaRef = Some Auto, textareaFocused = False,
        replyTimeouts = 0, focusTimeouts = 0, intervals = [], nextTimerId = 0\<rparr>)"

section \<open>Notions used in the properties\<close>

text \<open>The events whose callback writes the panel's geometry.\<close>

fun isGeometry :: "event \<Rightarrow> bool" where
  "isGeometry (Resize vvo) = True"
| "isGeometry (FocusTimeout vvo) = True"
| "isGeometry e = False"

text \<open>
  The events that take part in starting a reply: a submission and the timeout that starts
  its stream. \<open>withoutSubmissions evs\<close> is the run \<open>evs\<close> in which nothing is submitted
  and no reply starts.
\<close>

fun isSubmission :: "event \<Rightarrow> bool" where
  "isSubmission (Submit now) = True"
| "isSubmission (ReplyTimeout now) = True"
| "isSubmission e = False"

definition withoutSubmissions :: "event list \<Rightarrow> event list" where
  "withoutSubmissions evs = filter (\<lambda>e. \<not> isSubmission e) evs"

text \<open>
  What a stream of the text \<open>txt\<close> has appended once it is complete: the characters
  the updaters find, one per tick. Under \<open>Immediate\<close> tick \<open>k\<close> (counted from 0) appends
  \<open>charAt txt k\<close>; under \<open>AtRender\<close> it appends \<open>charAt txt (k + 1)\<close>.
\<close>

definition delivered :: "updater_timing \<Rightarrow> jsstring \<Rightarrow> jsstring" where
  "delivered tm txt = (case tm of Immediate \<Rightarrow> txt | AtRender \<Rightarrow> tl txt)"

text \<open>
  \<open>streamProgress\<close>: the interval with handle \<open>h\<close> is running with closure \<open>st\<close>, and
  the message at position \<open>j\<close> is its agent message, holding what the ticks so far have
  appended. \<open>streamDone\<close>: the interval has been cleared and the message holds all of it.
  \<open>streamInv\<close> adds what keeps other callbacks away from that message: every other
  running interval targets another id, and \<open>h\<close> is a handle already given out.
\<close>

definition streamProgress :: "updater_timing \<Rightarrow> nat \<Rightarrow> nat \<Rightarrow> stream \<Rightarrow> state \<Rightarrow> bool" where
  "streamProgress tm h j st s \<longleftrightarrow>
     map_of (intervals s) h = Some st \<and> j < length (messages s) \<and>
     messages s ! j = \<lparr>msg_id = agentMsgId st, role = Agent,
                       content = take (counter_i st) (delivered tm (sourceText st))\<rparr>"

definition streamDone :: "updater_timing \<Rightarrow> nat \<Rightarrow> nat \<Rightarrow> jsstring \<Rightarrow> jsstring \<Rightarrow> state \<Rightarrow> bool" where
  "streamDone tm h j a txt s \<longleftrightarrow>
     map_of (intervals s) h = None \<and> j < length (messages s) \<and>
     messages s ! j = \<lparr>msg_id = a, role = Agent, content = delivered tm txt\<rparr>"

definition streamInv ::
  "updater_timing \<Rightarrow> nat \<Rightarrow> nat \<Rightarrow> jsstring \<Rightarrow> jsstring \<Rightarrow> nat \<Rightarrow> state \<Rightarrow> bool" where
  "streamInv tm h j a txt k s \<longleftrightarrow>
     (if k < max 1 (length txt)
      then streamProgress tm h j \<lparr>agentMsgId = a, sourceText = txt, counter_i = k\<rparr> s
      else streamDone tm h j a txt s)
     \<and> h < nextTimerId s
     \<and> (\<forall>p\<in>set (intervals s). fst p = h \<or> agentMsgId (snd p) \<noteq> a)"

text \<open>
  The life of one reply when \<open>r\<close> further replies are pending: \<open>None\<close> while its
  600 ms timeout is pending, \<open>Some k\<close> after the timeout and \<open>k\<close> ticks of its interval.
\<close>

definition lifecycle :: "nat \<Rightarrow> jsstring \<Rightarrow> nat \<Rightarrow> nat option \<Rightarrow> state \<Rightarrow> bool" where
  "lifecycle h a r ph s \<longleftrightarrow>
     (case ph of
        None \<Rightarrow> isStreaming s \<and> replyTimeouts s = Suc r \<and> intervals s = [] \<and> nextTimerId s = h
      | Some k \<Rightarrow>
          replyTimeouts s = r \<and>
          (if k < length responseText
           then isStreaming s \<and>
                intervals s = [(h, \<lparr>agentMsgId = a, sourceText = responseText, counter_i = k\<rparr>)]
           else \<not> isStreaming s \<and> intervals s = []))"

section \<open>Example states\<close>

definition demoViewport :: viewport where
  "demoViewport = \<lparr>vv_height = 800, vv_offsetTop = 0\<rparr>"

definition demoArea :: scroll_area where
  "demoArea = \<lparr>scrollTop = 0, scrollHeight = 600, clientHeight = 600\<rparr>"

definition demoPage :: page where
  "demoPage = \<lparr>viewportRef = Some \<lparr>style_height = Percent 100, style_transform = NoTransform\<rparr>,
               windowScroll = (0, 40)\<rparr>"

text \<open>No messages; the message list 50 units above its bottom; the textarea not focused.\<close>

definition demoState :: state where
  "demoState =
     \<lparr>messages = [], input = [], isStreaming = False, isTouchingRef = False,
      containerRef = Some \<lparr>style_height = Percent 100, style_transform = NoTransform\<rparr>,
      scrollAreaRef = Some \<lparr>scrollTop = 550, scrollHeight = 1000, clientHeight = 400\<rparr>,
      textareaRef = Some Auto, textareaFocused = False,
      replyTimeouts = 0, focusTimeouts = 0, intervals = [], nextTimerId = 0\<rparr>"



text \<open>
  A reply is streaming (two ticks done), the user has scrolled to the top of the message
  list and is touching the screen.
\<close>

definition touchingState :: state where
  "touchingState =
     \<lparr>messages = [\<lparr>msg_id = utf16 ''1000'', role = User, content = utf16 ''hi''\<rparr>,
                  \<lparr>msg_id = utf16 ''1601'', role = Agent, content = utf16 ''He''\<rparr>],
      input = [], isStreaming = True, isTouchingRef = True,
      containerRef = Some \<lparr>style_height = Px 800, style_transform = Translate3d 0 0 0\<rparr>,
      scrollAreaRef = Some \<lparr>scrollTop = 0, scrollHeight = 1000, clientHeight = 400\<rparr>,
      textareaRef = Some Auto, textareaFocused = True,
      replyTimeouts = 0, focusTimeouts = 0,
      intervals = [(0, \<lparr>agentMsgId = utf16 ''1601'', sourceText = responseText, counter_i = 2\<rparr>)],
      nextTimerId = 1\<rparr>"

text \<open>
  A reply has made 162 of its 163 ticks; a second message has been sent and its reply is
  pending.
\<close>

definition lastTickState :: state where
  "lastTickState =
     \<lparr>messages = [\<lparr>msg_id = utf16 ''1000'', role = User, content = utf16 ''a''\<rparr>,
                  \<lparr>msg_id = utf16 ''1601'', role = Agent, content = take 162 (tl responseText)\<rparr>,
                  \<lparr>msg_id = utf16 ''6000'', role = User, content = utf16 ''b''\<rparr>],
      input = [], isStreaming = True, isTouchingRef = False,
      containerRef = Some \<lparr>style_height = Px 800, style_transform = Translate3d 0 0 0\<rparr>,
      scrollAreaRef = Some \<lparr>scrollTop = 600, scrollHeight = 600, clientHeight = 600\<rparr>,
      textareaRef = Some Auto, textareaFocused = True,
      replyTimeouts = 1, focusTimeouts = 1,
      intervals = [(0, \<lparr>agentMsgId = utf16 ''1601'', sourceText = responseText, counter_i = 162\<rparr>)],
      nextTimerId = 1\<rparr>"

text \<open>
  A first message is sent at time 1000 and its reply starts at 1600; a second message is
  sent at 6000, between the ticks 146 and 147 of the first reply; the first reply then
  runs to its last tick.
\<close>

definition overlapRun :: "updater_timing \<Rightarrow> state" where
  "overlapRun tm = run tm (mounted (Some demoViewport) demoArea)
      ([Typed (utf16 ''a'') 24, Submit 1000, ReplyTimeout 1600] @ replicate 146 (Tick 0)
        @ [Typed (utf16 ''b'') 24, Submit 6000] @ replicate 17 (Tick 0))"

text \<open>One message is sent at time 1000; its reply starts at 1600 and runs to its last tick.\<close>

definition singleRun :: "updater_timing \<Rightarrow> state" where
  "singleRun tm = run tm (mounted (Some demoViewport) demoArea)
      ([Typed (utf16 ''hi'') 24, Submit 1000, ReplyTimeout 1600] @ replicate 163 (Tick 0))"

section \<open>Runs\<close>

lemma run_append: "run tm s (xs @ ys) = run tm (run tm s xs) ys"
  by (induction xs arbitrary: s) simp_all

lemma run_snoc: "run tm s (evs @ [e]) = step tm e (run tm s evs)"
  by (simp add: run_append)

lemma run_replicate_Suc: "run tm s (replicate (Suc k) e) = step tm e (run tm s (replicate k e))"
proof -
  have "replicate (Suc k) e = replicate k e @ [e]"
    by (simp add: replicate_append_same)
  then show ?thesis
    by (simp only: run_snoc)
qed

lemma count_list_snoc:
  "count_list (evs @ [e]) x = (if e = x then Suc (count_list evs x) else count_list evs x)"
  by simp

lemma count_list_replicate_same: "count_list (replicate n x) x = n"
  by (induction n) simp_all

section \<open>Evaluating runs\<close>

lemmas eval_defs = mounted_def demoViewport_def demoArea_def handleResize_def scrollToBottomEffect_def
  handleInput_def sendMessage_def trim_def isWhiteSpace_def focusTextarea_def handleFocus_def
  agentReply_def startStream_def intervalTick_def appendChar_def setCounter_def
  clearInterval_def toString.simps utf16_def Let_def

lemma responseText_length: "length responseText = 163"
  by (simp add: responseText_def utf16_def)

lemma responseText_charAt:
  "charAt responseText 0 = utf16 ''H''" "charAt responseText (Suc 0) = utf16 ''e''"
  "charAt responseText 1 = utf16 ''e''" "charAt responseText 2 = utf16 ''r''"
  "charAt responseText (Suc (Suc 0)) = utf16 ''r''"
  "charAt responseText 3 = utf16 ''e''"
  "charAt responseText (Suc (Suc (Suc 0))) = utf16 ''e''"
  by (simp_all add: charAt_def responseText_def utf16_def)

lemma typed_input: "input (step tm (Typed v sh) s) = v"
  by (simp add: handleInput_def Let_def split: option.splits)

section \<open>What each callback leaves alone\<close>

lemma scrollEffect_fields [simp]:
  "messages (scrollToBottomEffect s) = messages s"
  "intervals (scrollToBottomEffect s) = intervals s"
  "isStreaming (scrollToBottomEffect s) = isStreaming s"
  "replyTimeouts (scrollToBottomEffect s) = replyTimeouts s"
  "nextTimerId (scrollToBottomEffect s) = nextTimerId s"
  "input (scrollToBottomEffect s) = input s"
  "containerRef (scrollToBottomEffect s) = containerRef s"
  by (simp_all add: scrollToBottomEffect_def split: option.splits)

lemma passive_fields [simp]:
  "messages (handleResize vvo s) = messages s"
  "intervals (handleResize vvo s) = intervals s"
  "nextTimerId (handleResize vvo s) = nextTimerId s"
  "isStreaming (handleResize vvo s) = isStreaming s"
  "replyTimeouts (handleResize vvo s) = replyTimeouts s"
  "messages (handleFocusCallback vvo s) = messages s"
  "intervals (handleFocusCallback vvo s) = intervals s"
  "nextTimerId (handleFocusCallback vvo s) = nextTimerId s"
  "isStreaming (handleFocusCallback vvo s) = isStreaming s"
  "replyTimeouts (handleFocusCallback vvo s) = replyTimeouts s"
  "messages (focusTextarea s) = messages s"
  "intervals (focusTextarea s) = intervals s"
  "nextTimerId (focusTextarea s) = nextTimerId s"
  "isStreaming (focusTextarea s) = isStreaming s"
  "replyTimeouts (focusTextarea s) = replyTimeouts s"
  "containerRef (focusTextarea s) = containerRef s"
  "messages (handleInput v sh s) = messages s"
  "intervals (handleInput v sh s) = intervals s"
  "nextTimerId (handleInput v sh s) = nextTimerId s"
  "isStreaming (handleInput v sh s) = isStreaming s"
  "replyTimeouts (handleInput v sh s) = replyTimeouts s"
  "containerRef (handleInput v sh s) = containerRef s"
  by (simp_all add: handleResize_def handleFocusCallback_def focusTextarea_def handleFocus_def
      handleInput_def Let_def split: option.splits)

lemma sendMessage_fields:
  "messages (sendMessage now s) =
     (if trim (input s) = [] then messages s
      else messages s @ [\<lparr>msg_id = toString now, role = User, content = input s\<rparr>])"
  "intervals (sendMessage now s) = intervals s"
  "nextTimerId (sendMessage now s) = nextTimerId s"
  "isStreaming (sendMessage now s) = (if trim (input s) = [] then isStreaming s else True)"
  "replyTimeouts (sendMessage now s) =
     (if trim (input s) = [] then replyTimeouts s else replyTimeouts s + 1)"
  "input (sendMessage now s) = (if trim (input s) = [] then input s else [])"
  "containerRef (sendMessage now s) = containerRef s"
  by (simp_all add: sendMessage_def Let_def trim_def focusTextarea_def handleFocus_def
      split: option.splits)

lemma startStream_fields:
  "messages (startStream txt now s) =
     messages s @ [\<lparr>msg_id = toString (now + 1), role = Agent, content = []\<rparr>]"
  "intervals (startStream txt now s) =
     intervals s @ [(nextTimerId s, \<lparr>agentMsgId = toString (now + 1), sourceText = txt, counter_i = 0\<rparr>)]"
  "nextTimerId (startStream txt now s) = nextTimerId s + 1"
  "isStreaming (startStream txt now s) = isStreaming s"
  "replyTimeouts (startStream txt now s) = replyTimeouts s"
  "input (startStream txt now s) = input s"
  "containerRef (startStream txt now s) = containerRef s"
  by (simp_all add: startStream_def Let_def)

lemma intervalTick_fields:
  assumes "map_of (intervals s) h = Some st"
  shows "messages (intervalTick tm h s) =
           map (appendChar st (case tm of Immediate \<Rightarrow> counter_i st | AtRender \<Rightarrow> Suc (counter_i st)))
             (messages s)"
    and "intervals (intervalTick tm h s) =
           (if length (sourceText st) \<le> Suc (counter_i st)
            then clearInterval h (setCounter h (Suc (counter_i st)) (intervals s))
            else setCounter h (Suc (counter_i st)) (intervals s))"
    and "isStreaming (intervalTick tm h s) =
           (if length (sourceText st) \<le> Suc (counter_i st) then False else isStreaming s)"
    and "replyTimeouts (intervalTick tm h s) = replyTimeouts s"
    and "nextTimerId (intervalTick tm h s) = nextTimerId s"
    and "input (intervalTick tm h s) = input s"
    and "containerRef (intervalTick tm h s) = containerRef s"
  using assms by (simp_all add: intervalTick_def Let_def)

lemma tick_idle: "map_of (intervals s) h = None \<Longrightarrow> step tm (Tick h) s = s"
  by simp

lemma tick_nextTimerId: "nextTimerId (step tm (Tick h) s) = nextTimerId s"
  by (simp add: intervalTick_fields split: option.splits)

lemma passive_step_frame:
  assumes "\<forall>t. e \<noteq> Submit t" "\<forall>t. e \<noteq> ReplyTimeout t" "\<forall>h. e \<noteq> Tick h"
  shows "isStreaming (step tm e s) = isStreaming s \<and> replyTimeouts (step tm e s) = replyTimeouts s
       \<and> intervals (step tm e s) = intervals s \<and> nextTimerId (step tm e s) = nextTimerId s
       \<and> messages (step tm e s) = messages s"
  using assms
  by (cases e) (simp_all add: handleTouchStart_def handleTouchEnd_def split: option.splits)

section \<open>Blank input\<close>

lemma trim_blank: "\<forall>c\<in>set t. isWhiteSpace c \<Longrightarrow> trim t = []"
  by (auto simp: trim_def dest: set_dropWhileD)

text \<open>
  C9. When the input is empty or holds only white space, submitting changes nothing:
  \<^verbatim>\<open>sendMessage\<close> returns at once, so the messages, the streaming flag, the input, every
  timer and the scroll position stay as they are, and no error is raised.
\<close>

theorem submit_blank_noop:
  "\<forall>c\<in>set (input s). isWhiteSpace c \<Longrightarrow> sendMessage now s = s \<and> step tm (Submit now) s = s"
  by (simp add: sendMessage_def trim_blank)

theorem submit_blank_noop_witness:
  "list_all isWhiteSpace (input (touchingState\<lparr>input := [32, 9, 160, 8232, 65279]\<rparr>))
   \<and> sendMessage 7 (touchingState\<lparr>input := [32, 9, 160, 8232, 65279]\<rparr>) =
       touchingState\<lparr>input := [32, 9, 160, 8232, 65279]\<rparr>
   \<and> step AtRender (Submit 7) (touchingState\<lparr>input := [32, 9, 160, 8232, 65279]\<rparr>) =
       touchingState\<lparr>input := [32, 9, 160, 8232, 65279]\<rparr>"
  using submit_blank_noop [of "touchingState\<lparr>input := [32, 9, 160, 8232, 65279]\<rparr>" 7 AtRender]
  by (simp add: isWhiteSpace_def)

section \<open>The panel's geometry\<close>

lemma handleResize_container:
  "containerRef s = Some c \<Longrightarrow>
   containerRef (handleResize (Some vv) s) =
     Some \<lparr>style_height = Px (vv_height vv), style_transform = Translate3d 0 (vv_offsetTop vv) 0\<rparr>"
  by (simp add: handleResize_def Let_def split: option.splits)

lemma handleResize_container_None:
  "containerRef (handleResize vvo s) = None \<longleftrightarrow> containerRef s = None"
  by (simp add: handleResize_def Let_def split: option.splits)

lemma handleFocusCallback_container_None:
  "containerRef (handleFocusCallback vvo s) = None \<longleftrightarrow> containerRef s = None"
  by (simp add: handleFocusCallback_def handleResize_def Let_def split: option.splits)

lemma step_container_None:
  "containerRef (step tm e s) = None \<longleftrightarrow> containerRef s = None"
proof (cases e)
  case (Tick h)
  then show ?thesis
    by (cases "map_of (intervals s) h") (simp_all add: intervalTick_fields)
qed (simp_all add: handleResize_container_None handleFocusCallback_container_None
       handleTouchStart_def handleTouchEnd_def sendMessage_fields agentReply_def
       startStream_fields split: option.splits)

lemma step_container_keep:
  "\<not> isGeometry e \<Longrightarrow> containerRef (step tm e s) = containerRef s"
proof (cases e)
  case (Tick h)
  then show ?thesis
    by (cases "map_of (intervals s) h") (simp_all add: intervalTick_fields)
qed (simp_all add: handleTouchStart_def handleTouchEnd_def sendMessage_fields agentReply_def
       startStream_fields split: option.splits)

lemma run_container_None:
  "containerRef (run tm s evs) = None \<longleftrightarrow> containerRef s = None"
  by (induction evs arbitrary: s) (simp_all add: step_container_None del: step.simps)

lemma run_container_keep:
  "\<forall>e\<in>set evs. \<not> isGeometry e \<Longrightarrow> containerRef (run tm s evs) = containerRef s"
  by (induction evs arbitrary: s) (simp_all add: step_container_keep del: step.simps)

text \<open>
  C6. After a geometry event is handled the panel's height is that event's visible height
  and its vertical offset that event's visible offset, and they stay so until the next
  geometry event: in whatever state the event arrives (after any events \<open>evs\<close>) and
  whatever other events \<open>evs'\<close> follow, provided the panel is mounted. Both values are
  written in the one callback of the event, and a state between two callbacks never holds
  the height of one event with the offset of another. The same holds for
  \<^verbatim>\<open>handleVisualViewportChange\<close> of the other version of the component.
\<close>

theorem geometry_applied:
  assumes "containerRef s \<noteq> None" and "\<forall>e\<in>set evs'. \<not> isGeometry e"
  shows "containerRef (run tm s (evs @ Resize (Some vv) # evs')) =
           Some \<lparr>style_height = Px (vv_height vv), style_transform = Translate3d 0 (vv_offsetTop vv) 0\<rparr>
         \<and> (viewportRef p \<noteq> None \<longrightarrow>
              viewportRef (handleVisualViewportChange (Some vv) p) =
                Some \<lparr>style_height = Px (vv_height vv), style_transform = TranslateY (vv_offsetTop vv)\<rparr>)"
proof -
  from assms(1) obtain c where "containerRef (run tm s evs) = Some c"
    using run_container_None [of tm s evs] by (cases "containerRef (run tm s evs)") auto
  then have "containerRef (step tm (Resize (Some vv)) (run tm s evs)) =
      Some \<lparr>style_height = Px (vv_height vv), style_transform = Translate3d 0 (vv_offsetTop vv) 0\<rparr>"
    by (simp add: handleResize_container)
  with assms(2) have "containerRef (run tm s (evs @ Resize (Some vv) # evs')) =
      Some \<lparr>style_height = Px (vv_height vv), style_transform = Translate3d 0 (vv_offsetTop vv) 0\<rparr>"
    by (simp add: run_append run_container_keep del: step.simps)
  moreover have "viewportRef p \<noteq> None \<longrightarrow>
      viewportRef (handleVisualViewportChange (Some vv) p) =
        Some \<lparr>style_height = Px (vv_height vv), style_transform = TranslateY (vv_offsetTop vv)\<rparr>"
    by (auto simp: handleVisualViewportChange_def Let_def)
  ultimately show ?thesis by simp
qed

theorem geometry_applied_witness:
  "containerRef demoState \<noteq> None \<and> \<not> isGeometry TouchStart \<and> \<not> isGeometry (Tick 0)
   \<and> containerRef (run AtRender demoState ([Resize (Some \<lparr>vv_height = 800, vv_offsetTop = 0\<rparr>), Focus]
         @ Resize (Some \<lparr>vv_height = 500, vv_offsetTop = 120\<rparr>) # [TouchStart, Tick 0])) =
        Some \<lparr>style_height = Px 500, style_transform = Translate3d 0 120 0\<rparr>
   \<and> viewportRef demoPage \<noteq> None
   \<and> viewportRef (handleVisualViewportChange (Some \<lparr>vv_height = 500, vv_offsetTop = 120\<rparr>) demoPage) =
        Some \<lparr>style_height = Px 500, style_transform = TranslateY 120\<rparr>"
  using geometry_applied [of demoState "[TouchStart, Tick 0]" AtRender
      "[Resize (Some \<lparr>vv_height = 800, vv_offsetTop = 0\<rparr>), Focus]"
      "\<lparr>vv_height = 500, vv_offsetTop = 120\<rparr>" demoPage]
  by (simp add: demoState_def demoPage_def)

section \<open>Scroll correction\<close>

lemma handleResize_touching:
  "isTouchingRef s \<Longrightarrow> scrollAreaRef (handleResize vvo s) = scrollAreaRef s"
  by (simp add: handleResize_def Let_def split: option.splits)

lemma scrollToBottomEffect_scrolls:
  "scrollAreaRef s = Some a \<Longrightarrow>
   scrollAreaRef (scrollToBottomEffect s) = Some (a\<lparr>scrollTop := scrollHeight a\<rparr>)"
  by (simp add: scrollToBottomEffect_def)

text \<open>
  C1. While the user is touching the screen a reconciliation that is not forced must leave
  the scroll position alone, whatever the distance from the bottom, also when a change
  of the messages triggers it. The callback of a geometry event does so
  (\<open>handleResize_touching\<close>). The effect that runs when the messages change does not look
  at the touch flag: in \<open>touchingState\<close> the user is touching and has scrolled to the top
  (\<open>scrollTop = 0\<close>, 600 units from the bottom), and the next tick of the stream, or a
  submission, moves the scroll position to 1000, under either updater timing; the
  geometry event in the same state leaves it at 0.
\<close>

theorem touching_tick_scrolls:
  "isTouchingRef touchingState
   \<and> scrollAreaRef touchingState = Some \<lparr>scrollTop = 0, scrollHeight = 1000, clientHeight = 400\<rparr>
   \<and> scrollAreaRef (step AtRender (Tick 0) touchingState) =
        Some \<lparr>scrollTop = 1000, scrollHeight = 1000, clientHeight = 400\<rparr>
   \<and> scrollAreaRef (step Immediate (Tick 0) touchingState) =
        Some \<lparr>scrollTop = 1000, scrollHeight = 1000, clientHeight = 400\<rparr>
   \<and> scrollAreaRef (step AtRender (Submit 2000) (touchingState\<lparr>input := utf16 ''more''\<rparr>)) =
        Some \<lparr>scrollTop = 1000, scrollHeight = 1000, clientHeight = 400\<rparr>
   \<and> scrollAreaRef (step AtRender (Resize (Some \<lparr>vv_height = 500, vv_offsetTop = 0\<rparr>)) touchingState) =
        Some \<lparr>scrollTop = 0, scrollHeight = 1000, clientHeight = 400\<rparr>"
  by (simp add: touchingState_def intervalTick_def scrollToBottomEffect_def Let_def
      sendMessage_def trim_def isWhiteSpace_def focusTextarea_def handleResize_def
      setCounter_def clearInterval_def responseText_length utf16_def)

text \<open>
  C2, as the code has it. The callback of a geometry event sets the scroll position to the
  content height when the distance from the bottom is below 100, no touch is active,
  the textarea has the focus and the panel is mounted. The forced pass 300 ms after the
  textarea received focus sets it whenever the platform has a visual viewport, whatever
  the distance, the touch flag and the focus.
\<close>

theorem reconcile_pinned_jumps:
  "(containerRef s \<noteq> None \<and> scrollAreaRef s = Some a \<and> textareaFocused s \<and> \<not> isTouchingRef s
      \<and> scrollHeight a - scrollTop a - clientHeight a < 100
     \<longrightarrow> scrollAreaRef (handleResize (Some vv) s) = Some (a\<lparr>scrollTop := scrollHeight a\<rparr>))
   \<and> (scrollAreaRef s = Some a
     \<longrightarrow> scrollAreaRef (handleFocusCallback (Some vv) s) = Some (a\<lparr>scrollTop := scrollHeight a\<rparr>))"
  by (auto simp: handleResize_def handleFocusCallback_def Let_def split: option.splits)

theorem reconcile_pinned_jumps_witness:
  "containerRef (demoState\<lparr>textareaFocused := True\<rparr>) \<noteq> None
   \<and> scrollAreaRef (demoState\<lparr>textareaFocused := True\<rparr>) =
        Some \<lparr>scrollTop = 550, scrollHeight = 1000, clientHeight = 400\<rparr>
   \<and> textareaFocused (demoState\<lparr>textareaFocused := True\<rparr>)
   \<and> \<not> isTouchingRef (demoState\<lparr>textareaFocused := True\<rparr>)
   \<and> (1000::int) - 550 - 400 < 100
   \<and> scrollAreaRef (handleResize (Some \<lparr>vv_height = 500, vv_offsetTop = 0\<rparr>)
          (demoState\<lparr>textareaFocused := True\<rparr>)) =
        Some \<lparr>scrollTop = 1000, scrollHeight = 1000, clientHeight = 400\<rparr>
   \<and> scrollAreaRef (handleFocusCallback (Some \<lparr>vv_height = 500, vv_offsetTop = 0\<rparr>)
          (demoState\<lparr>textareaFocused := True\<rparr>)) =
        Some \<lparr>scrollTop = 1000, scrollHeight = 1000, clientHeight = 400\<rparr>"
  using reconcile_pinned_jumps [of "demoState\<lparr>textareaFocused := True\<rparr>"
      "\<lparr>scrollTop = 550, scrollHeight = 1000, clientHeight = 400\<rparr>"
      "\<lparr>vv_height = 500, vv_offsetTop = 0\<rparr>"]
  by (simp add: demoState_def)

text \<open>
  C2 as stated fails. In \<open>demoState\<close> the distance from the bottom is 50 and no touch is
  active, but the textarea does not have the focus: the geometry event leaves the scroll
  position at 550. And on a platform without a visual viewport the forced pass leaves it
  at 550 as well.
\<close>

theorem unfocused_not_pinned_counterexample:
  "scrollAreaRef demoState = Some \<lparr>scrollTop = 550, scrollHeight = 1000, clientHeight = 400\<rparr>
   \<and> (1000::int) - 550 - 400 < 100
   \<and> \<not> isTouchingRef demoState
   \<and> scrollAreaRef (handleResize (Some \<lparr>vv_height = 500, vv_offsetTop = 0\<rparr>) demoState) =
        Some \<lparr>scrollTop = 550, scrollHeight = 1000, clientHeight = 400\<rparr>
   \<and> scrollAreaRef (handleFocusCallback None demoState) =
        Some \<lparr>scrollTop = 550, scrollHeight = 1000, clientHeight = 400\<rparr>"
  by (simp add: demoState_def handleResize_def handleFocusCallback_def)




section \<open>A stream and its message\<close>

lemma map_of_setCounter:
  "map_of (setCounter h k ts) h' =
     (if h' = h then map_option (\<lambda>st. st\<lparr>counter_i := k\<rparr>) (map_of ts h) else map_of ts h')"
  by (induction ts) (auto simp: setCounter_def)

lemma map_of_clearInterval:
  "map_of (clearInterval h ts) h' = (if h' = h then None else map_of ts h')"
  by (induction ts) (auto simp: clearInterval_def)

lemma set_setCounter:
  "p \<in> set (setCounter h k ts) \<Longrightarrow> \<exists>q\<in>set ts. fst q = fst p \<and> agentMsgId (snd q) = agentMsgId (snd p)"
  by (force simp: setCounter_def split: if_splits)

lemma set_clearInterval: "p \<in> set (clearInterval h ts) \<Longrightarrow> p \<in> set ts"
  by (simp add: clearInterval_def)

lemma charAt_tl: "charAt txt (Suc k) = charAt (tl txt) k"
  by (cases "txt") (simp_all add: charAt_def)

lemma take_charAt: "take k t @ charAt t k = take (Suc k) t"
  by (simp add: charAt_def take_Suc_conv_app_nth)

lemma delivered_all: "length txt \<le> k \<Longrightarrow> take k (delivered tm txt) = delivered tm txt"
  by (cases tm) (simp_all add: delivered_def)

lemma delivered_step:
  "take k (delivered tm txt) @ charAt txt (case tm of Immediate \<Rightarrow> k | AtRender \<Rightarrow> Suc k) =
     take (Suc k) (delivered tm txt)"
  by (cases tm) (simp_all add: delivered_def take_charAt charAt_tl)

lemma tick_running:
  assumes "streamProgress tm h j \<lparr>agentMsgId = a, sourceText = txt, counter_i = k\<rparr> s"
    and "Suc k < length txt"
  shows "streamProgress tm h j \<lparr>agentMsgId = a, sourceText = txt, counter_i = Suc k\<rparr>
           (step tm (Tick h) s)"
  using assms
  by (cases tm)
     (simp_all add: streamProgress_def intervalTick_fields map_of_setCounter appendChar_def
        delivered_def take_charAt charAt_tl)

lemma tick_last:
  assumes "streamProgress tm h j \<lparr>agentMsgId = a, sourceText = txt, counter_i = k\<rparr> s"
    and "length txt \<le> Suc k"
  shows "streamDone tm h j a txt (step tm (Tick h) s)"
    and "\<not> isStreaming (step tm (Tick h) s)"
proof -
  from assms have m: "map_of (intervals s) h =
      Some \<lparr>agentMsgId = a, sourceText = txt, counter_i = k\<rparr>"
    and j: "j < length (messages s)"
    and c: "messages s ! j = \<lparr>msg_id = a, role = Agent, content = take k (delivered tm txt)\<rparr>"
    by (simp_all add: streamProgress_def)
  have "take k (delivered tm txt) @
      charAt txt (case tm of Immediate \<Rightarrow> k | AtRender \<Rightarrow> Suc k) =
      take (Suc k) (delivered tm txt)"
    by (rule delivered_step)
  also from assms(2) have "\<dots> = delivered tm txt"
    by (rule delivered_all)
  finally have app: "take k (delivered tm txt) @
      charAt txt (case tm of Immediate \<Rightarrow> k | AtRender \<Rightarrow> Suc k) = delivered tm txt" .
  have "messages (step tm (Tick h) s) ! j =
      \<lparr>msg_id = a, role = Agent, content = delivered tm txt\<rparr>"
    using m j c app
    by (cases tm) (simp_all add: intervalTick_fields appendChar_def)
  with m j assms(2) show "streamDone tm h j a txt (step tm (Tick h) s)"
    by (simp add: streamDone_def intervalTick_fields map_of_clearInterval)
  from m assms(2) show "\<not> isStreaming (step tm (Tick h) s)"
    by (simp add: intervalTick_fields)
qed

lemma others_tick:
  assumes "\<forall>p\<in>set (intervals s). fst p = h \<or> agentMsgId (snd p) \<noteq> a"
  shows "\<forall>p\<in>set (intervals (step tm (Tick h') s)). fst p = h \<or> agentMsgId (snd p) \<noteq> a"
proof (cases "map_of (intervals s) h'")
  case None
  with assms show ?thesis by simp
next
  case (Some st)
  show ?thesis
  proof
    fix p assume "p \<in> set (intervals (step tm (Tick h') s))"
    with Some have "p \<in> set (setCounter h' (Suc (counter_i st)) (intervals s))"
      by (auto simp: intervalTick_fields dest: set_clearInterval split: if_splits)
    then obtain q where "q \<in> set (intervals s)" "fst q = fst p"
        "agentMsgId (snd q) = agentMsgId (snd p)"
      using set_setCounter by blast
    with assms show "fst p = h \<or> agentMsgId (snd p) \<noteq> a" by metis
  qed
qed

lemma tick_other_progress:
  assumes "streamProgress tm h j st s" and "h' \<noteq> h"
    and "\<forall>p\<in>set (intervals s). fst p = h \<or> agentMsgId (snd p) \<noteq> agentMsgId st"
  shows "streamProgress tm h j st (step tm (Tick h') s)"
proof (cases "map_of (intervals s) h'")
  case None
  with assms(1) show ?thesis by simp
next
  case (Some st')
  then have "(h', st') \<in> set (intervals s)" by (rule map_of_SomeD)
  with assms(2,3) have "agentMsgId st' \<noteq> agentMsgId st" by auto
  with assms(1,2) Some show ?thesis
    by (simp add: streamProgress_def intervalTick_fields map_of_setCounter map_of_clearInterval
        appendChar_def)
qed

lemma tick_other_done:
  assumes "streamDone tm h j a txt s" and "h' \<noteq> h"
    and "\<forall>p\<in>set (intervals s). fst p = h \<or> agentMsgId (snd p) \<noteq> a"
  shows "streamDone tm h j a txt (step tm (Tick h') s)"
proof (cases "map_of (intervals s) h'")
  case None
  with assms(1) show ?thesis by simp
next
  case (Some st')
  then have "(h', st') \<in> set (intervals s)" by (rule map_of_SomeD)
  with assms(2,3) have "agentMsgId st' \<noteq> a" by auto
  with assms(1,2) Some show ?thesis
    by (simp add: streamDone_def intervalTick_fields map_of_setCounter map_of_clearInterval
        appendChar_def)
qed

lemma streamInv_frame:
  assumes "streamInv tm h j a txt k s"
    and "messages s' = messages s" "intervals s' = intervals s" "nextTimerId s' = nextTimerId s"
  shows "streamInv tm h j a txt k s'"
  using assms by (simp add: streamInv_def streamProgress_def streamDone_def split: if_splits)

lemma streamInv_append:
  assumes "streamInv tm h j a txt k s"
    and "messages s' = messages s @ ms" "intervals s' = intervals s" "nextTimerId s' = nextTimerId s"
  shows "streamInv tm h j a txt k s'"
  using assms by (auto simp: streamInv_def streamProgress_def streamDone_def nth_append)

lemma streamInv_startStream:
  assumes "streamInv tm h j a txt k s" and "toString (t + 1) \<noteq> a"
  shows "streamInv tm h j a txt k (startStream txt' t s)"
proof -
  from assms(1) have lt: "h < nextTimerId s"
    and others: "\<forall>p\<in>set (intervals s). fst p = h \<or> agentMsgId (snd p) \<noteq> a"
    by (simp_all add: streamInv_def)
  have m: "map_of (intervals (startStream txt' t s)) h = map_of (intervals s) h"
    using lt by (simp add: startStream_fields map_add_def split: option.splits)
  have n: "\<And>i. i < length (messages s) \<Longrightarrow>
      messages (startStream txt' t s) ! i = messages s ! i"
    by (simp add: startStream_fields nth_append)
  have l: "\<And>i. i < length (messages s) \<Longrightarrow> i < length (messages (startStream txt' t s))"
    by (simp add: startStream_fields)
  have o': "\<forall>p\<in>set (intervals (startStream txt' t s)). fst p = h \<or> agentMsgId (snd p) \<noteq> a"
    using others assms(2) by (simp add: startStream_fields)
  have lt': "h < nextTimerId (startStream txt' t s)"
    using lt by (simp add: startStream_fields)
  show ?thesis
  proof (cases "k < max 1 (length txt)")
    case True
    with assms(1) have "streamProgress tm h j \<lparr>agentMsgId = a, sourceText = txt, counter_i = k\<rparr> s"
      by (simp add: streamInv_def)
    then have "streamProgress tm h j \<lparr>agentMsgId = a, sourceText = txt, counter_i = k\<rparr>
        (startStream txt' t s)"
      using m n l by (simp add: streamProgress_def)
    with True o' lt' show ?thesis by (simp add: streamInv_def)
  next
    case False
    with assms(1) have "streamDone tm h j a txt s" by (simp add: streamInv_def)
    then have "streamDone tm h j a txt (startStream txt' t s)"
      using m n l by (simp add: streamDone_def)
    with False o' lt' show ?thesis by (simp add: streamInv_def)
  qed
qed

lemma streamInv_tick_same:
  assumes "streamInv tm h j a txt k s"
  shows "streamInv tm h j a txt (Suc k) (step tm (Tick h) s)"
proof -
  from assms have others: "\<forall>p\<in>set (intervals s). fst p = h \<or> agentMsgId (snd p) \<noteq> a"
    and lt: "h < nextTimerId s"
    by (simp_all add: streamInv_def)
  have o': "\<forall>p\<in>set (intervals (step tm (Tick h) s)). fst p = h \<or> agentMsgId (snd p) \<noteq> a"
    using others by (rule others_tick)
  have lt': "h < nextTimerId (step tm (Tick h) s)"
    using lt by (simp only: tick_nextTimerId)
  show ?thesis
  proof (cases "k < max 1 (length txt)")
    case True
    with assms have prog: "streamProgress tm h j \<lparr>agentMsgId = a, sourceText = txt, counter_i = k\<rparr> s"
      by (simp add: streamInv_def)
    show ?thesis
    proof (cases "Suc k < length txt")
      case True
      with prog have "streamProgress tm h j \<lparr>agentMsgId = a, sourceText = txt, counter_i = Suc k\<rparr>
          (step tm (Tick h) s)"
        by (rule tick_running)
      with True o' lt' show ?thesis
        by (simp add: streamInv_def del: step.simps)
    next
      case False
      then have le: "length txt \<le> Suc k" by simp
      from False have nl: "\<not> Suc k < max 1 (length txt)" by simp
      from prog le have "streamDone tm h j a txt (step tm (Tick h) s)"
        by (rule tick_last)
      with nl o' lt' show ?thesis
        by (simp add: streamInv_def del: step.simps)
    qed
  next
    case False
    with assms have d: "streamDone tm h j a txt s" by (simp add: streamInv_def)
    then have "step tm (Tick h) s = s" by (simp add: streamDone_def)
    moreover from False have "\<not> Suc k < max 1 (length txt)" by simp
    ultimately show ?thesis using d others lt by (simp add: streamInv_def)
  qed
qed

lemma streamInv_tick_other:
  assumes "streamInv tm h j a txt k s" and "h' \<noteq> h"
  shows "streamInv tm h j a txt k (step tm (Tick h') s)"
proof -
  from assms have others: "\<forall>p\<in>set (intervals s). fst p = h \<or> agentMsgId (snd p) \<noteq> a"
    and lt: "h < nextTimerId s"
    by (simp_all add: streamInv_def)
  have o': "\<forall>p\<in>set (intervals (step tm (Tick h') s)). fst p = h \<or> agentMsgId (snd p) \<noteq> a"
    using others by (rule others_tick)
  have lt': "h < nextTimerId (step tm (Tick h') s)"
    using lt by (simp only: tick_nextTimerId)
  show ?thesis
  proof (cases "k < max 1 (length txt)")
    case True
    with assms have prog: "streamProgress tm h j \<lparr>agentMsgId = a, sourceText = txt, counter_i = k\<rparr> s"
      by (simp add: streamInv_def)
    from others have "\<forall>p\<in>set (intervals s). fst p = h \<or>
        agentMsgId (snd p) \<noteq> agentMsgId \<lparr>agentMsgId = a, sourceText = txt, counter_i = k\<rparr>"
      by simp
    with prog assms(2)
    have "streamProgress tm h j \<lparr>agentMsgId = a, sourceText = txt, counter_i = k\<rparr>
        (step tm (Tick h') s)"
      by (rule tick_other_progress)
    with True o' lt' show ?thesis by (simp add: streamInv_def del: step.simps)
  next
    case False
    with assms have "streamDone tm h j a txt s" by (simp add: streamInv_def)
    from this assms(2) others have "streamDone tm h j a txt (step tm (Tick h') s)"
      by (rule tick_other_done)
    with False o' lt' show ?thesis by (simp add: streamInv_def del: step.simps)
  qed
qed

lemma step_streamInv:
  assumes "streamInv tm h j a txt k s" and "\<forall>t. e = ReplyTimeout t \<longrightarrow> toString (t + 1) \<noteq> a"
  shows "streamInv tm h j a txt (if e = Tick h then Suc k else k) (step tm e s)"
proof (cases "\<exists>h'. e = Tick h'")
  case True
  then obtain h' where e: "e = Tick h'" by blast
  show ?thesis
  proof (cases "h' = h")
    case True
    from assms(1) have "streamInv tm h j a txt (Suc k) (step tm (Tick h) s)"
      by (rule streamInv_tick_same)
    with e True show ?thesis by (simp del: step.simps)
  next
    case False
    with e assms(1) show ?thesis by (simp add: streamInv_tick_other del: step.simps)
  qed
next
  case nt: False
  then have ne: "e \<noteq> Tick h" by blast
  consider (sub) now where "e = Submit now" | (rep) t where "e = ReplyTimeout t"
    | (pas) "\<forall>t. e \<noteq> Submit t" "\<forall>t. e \<noteq> ReplyTimeout t"
    by blast
  then show ?thesis
  proof cases
    case sub
    have sm: "streamInv tm h j a txt k (sendMessage now s)"
      by (rule streamInv_append [OF assms(1), of _ "if trim (input s) = [] then [] else
            [\<lparr>msg_id = toString now, role = User, content = input s\<rparr>]"])
         (simp_all add: sendMessage_fields)
    then have "streamInv tm h j a txt k (scrollToBottomEffect (sendMessage now s))"
      by (rule streamInv_frame) simp_all
    with sub sm show ?thesis by simp
  next
    case rep
    with assms(2) have neq: "toString (t + 1) \<noteq> a" by simp
    have "streamInv tm h j a txt k (s\<lparr>replyTimeouts := replyTimeouts s - 1\<rparr>)"
      using assms(1) by (rule streamInv_frame) simp_all
    then have "streamInv tm h j a txt k (agentReply t (s\<lparr>replyTimeouts := replyTimeouts s - 1\<rparr>))"
      unfolding agentReply_def using neq by (rule streamInv_startStream)
    then have "streamInv tm h j a txt k
        (scrollToBottomEffect (agentReply t (s\<lparr>replyTimeouts := replyTimeouts s - 1\<rparr>)))"
      by (rule streamInv_frame) simp_all
    with rep assms(1) show ?thesis by simp
  next
    case pas
    with nt have "isStreaming (step tm e s) = isStreaming s \<and>
        replyTimeouts (step tm e s) = replyTimeouts s \<and> intervals (step tm e s) = intervals s \<and>
        nextTimerId (step tm e s) = nextTimerId s \<and> messages (step tm e s) = messages s"
      by (intro passive_step_frame) auto
    then have "streamInv tm h j a txt k (step tm e s)"
      by (intro streamInv_frame [OF assms(1)]) simp_all
    with ne show ?thesis by simp
  qed
qed

lemma run_streamInv:
  assumes "streamInv tm h j a txt 0 s"
    and "\<forall>t. ReplyTimeout t \<in> set evs \<longrightarrow> toString (t + 1) \<noteq> a"
  shows "streamInv tm h j a txt (count_list evs (Tick h)) (run tm s evs)"
  using assms(2)
proof (induction evs rule: rev_induct)
  case Nil
  with assms(1) show ?case by simp
next
  case (snoc e evs)
  then have "streamInv tm h j a txt (count_list evs (Tick h)) (run tm s evs)" by simp
  moreover from snoc.prems have "\<forall>t. e = ReplyTimeout t \<longrightarrow> toString (t + 1) \<noteq> a" by simp
  ultimately have "streamInv tm h j a txt (if e = Tick h then Suc (count_list evs (Tick h))
       else count_list evs (Tick h)) (step tm e (run tm s evs))"
    by (rule step_streamInv)
  then show ?case by (simp only: run_snoc count_list_snoc)
qed

lemma startStream_inv:
  assumes "\<forall>p\<in>set (intervals s). fst p < nextTimerId s"
    and "\<forall>p\<in>set (intervals s). agentMsgId (snd p) \<noteq> toString (now + 1)"
  shows "streamInv tm (nextTimerId s) (length (messages s)) (toString (now + 1)) txt 0
           (startStream txt now s)"
proof -
  from assms(1) have "\<forall>p\<in>set (intervals s). fst p \<noteq> nextTimerId s" by auto
  then have "map_of (intervals s) (nextTimerId s) = None"
    by (auto simp: map_of_eq_None_iff)
  with assms(2) show ?thesis
    by (simp add: streamInv_def streamProgress_def startStream_fields map_add_def)
qed

text \<open>
  What a stream appends, under either updater timing and however its ticks are
  interleaved with other events: after \<open>n\<close> of its ticks the agent message holds the
  first \<open>n\<close> characters of \<open>delivered tm txt\<close>, and the interval is cleared once \<open>n\<close> has
  reached the length of the text (at the first tick when the text is empty). No other
  running interval may target the same message id.
\<close>

lemma stream_delivers:
  assumes "\<forall>p\<in>set (intervals s). fst p < nextTimerId s"
    and "\<forall>p\<in>set (intervals s). agentMsgId (snd p) \<noteq> toString (now + 1)"
    and "\<forall>t. ReplyTimeout t \<in> set evs \<longrightarrow> toString (t + 1) \<noteq> toString (now + 1)"
  shows "messages (run tm (startStream txt now s) evs) ! length (messages s) =
           \<lparr>msg_id = toString (now + 1), role = Agent,
            content = take (count_list evs (Tick (nextTimerId s))) (delivered tm txt)\<rparr>
         \<and> (map_of (intervals (run tm (startStream txt now s) evs)) (nextTimerId s) = None
              \<longleftrightarrow> max 1 (length txt) \<le> count_list evs (Tick (nextTimerId s)))"
proof -
  let ?n = "count_list evs (Tick (nextTimerId s))"
  from assms(1,2) have "streamInv tm (nextTimerId s) (length (messages s)) (toString (now + 1)) txt 0
      (startStream txt now s)"
    by (rule startStream_inv)
  from this assms(3)
  have inv: "streamInv tm (nextTimerId s) (length (messages s)) (toString (now + 1)) txt ?n
      (run tm (startStream txt now s) evs)"
    by (rule run_streamInv)
  show ?thesis
  proof (cases "?n < max 1 (length txt)")
    case True
    with inv show ?thesis by (auto simp: streamInv_def streamProgress_def)
  next
    case False
    then have "length txt \<le> ?n" by simp
    then have "take ?n (delivered tm txt) = delivered tm txt" by (rule delivered_all)
    with False inv show ?thesis by (auto simp: streamInv_def streamDone_def)
  qed
qed

section \<open>The life of one reply\<close>

lemma lifecycle_frame:
  assumes "lifecycle h a r ph s"
    and "isStreaming s' = isStreaming s" "replyTimeouts s' = replyTimeouts s"
    and "intervals s' = intervals s" "nextTimerId s' = nextTimerId s"
  shows "lifecycle h a r ph s'"
  using assms by (simp add: lifecycle_def split: option.splits)

lemma lifecycle_passive:
  assumes "lifecycle h a r ph s"
    and "\<forall>t. e \<noteq> Submit t" "\<forall>t. e \<noteq> ReplyTimeout t" "\<forall>h'. e \<noteq> Tick h'"
  shows "lifecycle h a r ph (step tm e s)"
proof -
  from assms(2-4) have "isStreaming (step tm e s) = isStreaming s \<and>
      replyTimeouts (step tm e s) = replyTimeouts s \<and> intervals (step tm e s) = intervals s \<and>
      nextTimerId (step tm e s) = nextTimerId s \<and> messages (step tm e s) = messages s"
    by (rule passive_step_frame)
  then show ?thesis
    by (intro lifecycle_frame [OF assms(1)]) simp_all
qed

lemma lifecycle_submit:
  assumes "replyTimeouts s = 0" "intervals s = []" "trim (input s) \<noteq> []"
  shows "lifecycle (nextTimerId s) a 0 None (step tm (Submit t) s)"
  using assms by (simp add: lifecycle_def sendMessage_fields)

lemma lifecycle_waiting:
  assumes "lifecycle h a r None s" and "\<forall>t. e \<noteq> Submit t" "\<forall>t. e \<noteq> ReplyTimeout t"
  shows "lifecycle h a r None (step tm e s)"
proof (cases "\<exists>h'. e = Tick h'")
  case True
  with assms(1) show ?thesis by (auto simp: lifecycle_def)
next
  case False
  with assms show ?thesis by (intro lifecycle_passive) auto
qed

lemma lifecycle_reply:
  assumes "lifecycle h a r None s"
  shows "lifecycle h (toString (t + 1)) r (Some 0) (step tm (ReplyTimeout t) s)"
  using assms
  by (simp add: lifecycle_def agentReply_def startStream_fields responseText_length)

lemma lifecycle_tick:
  assumes "lifecycle h a r (Some k) s"
  shows "lifecycle h a r (Some (if h' = h then Suc k else k)) (step tm (Tick h') s)"
proof (cases "k < length responseText")
  case True
  with assms show ?thesis
    by (auto simp: lifecycle_def intervalTick_def setCounter_def clearInterval_def Let_def)
next
  case False
  with assms show ?thesis by (auto simp: lifecycle_def)
qed

lemma lifecycle_streaming:
  assumes "lifecycle h a 0 (Some k) s" and "\<forall>t. e \<noteq> Submit t"
  shows "lifecycle h a 0 (Some (if e = Tick h then Suc k else k)) (step tm e s)"
proof (cases "\<exists>h'. e = Tick h'")
  case True
  then obtain h' where "e = Tick h'" by blast
  with lifecycle_tick [OF assms(1), of h' tm] show ?thesis by (simp del: step.simps)
next
  case nt: False
  then have ne: "e \<noteq> Tick h" by blast
  show ?thesis
  proof (cases "\<exists>t. e = ReplyTimeout t")
    case True
    with assms(1) show ?thesis by (auto simp: lifecycle_def)
  next
    case False
    with assms nt have "lifecycle h a 0 (Some k) (step tm e s)"
      by (intro lifecycle_passive) auto
    with ne show ?thesis by simp
  qed
qed

lemma lifecycle_second_submit:
  assumes "lifecycle h a r (Some k) s" and "k < length responseText" and "trim (input s) \<noteq> []"
  shows "lifecycle h a (Suc r) (Some k) (step tm (Submit t) s)"
  using assms by (simp add: lifecycle_def sendMessage_fields)

lemma run_lifecycle_ticks:
  assumes "lifecycle h a r (Some k) s"
  shows "lifecycle h a r (Some (k + d)) (run tm s (replicate d (Tick h)))"
proof (induction d)
  case 0
  with assms show ?case by simp
next
  case (Suc d)
  from lifecycle_tick [OF Suc, of h tm] show ?case
    by (simp only: run_replicate_Suc) simp
qed

lemma run_lifecycle_waiting:
  assumes "lifecycle h a r None s" and "\<forall>t. Submit t \<notin> set evs \<and> ReplyTimeout t \<notin> set evs"
  shows "lifecycle h a r None (run tm s evs)"
  using assms
proof (induction evs arbitrary: s)
  case Nil
  then show ?case by simp
next
  case (Cons e evs)
  from Cons.prems have "lifecycle h a r None (step tm e s)"
    by (intro lifecycle_waiting) auto
  with Cons show ?case by simp
qed

lemma run_lifecycle_streaming:
  assumes "lifecycle h a 0 (Some 0) s" and "\<forall>t. Submit t \<notin> set evs"
  shows "lifecycle h a 0 (Some (count_list evs (Tick h))) (run tm s evs)"
  using assms(2)
proof (induction evs rule: rev_induct)
  case Nil
  with assms(1) show ?case by simp
next
  case (snoc e evs)
  then have "lifecycle h a 0 (Some (count_list evs (Tick h))) (run tm s evs)" by simp
  moreover from snoc.prems have "\<forall>t. e \<noteq> Submit t" by auto
  ultimately have "lifecycle h a 0 (Some (if e = Tick h then Suc (count_list evs (Tick h))
      else count_list evs (Tick h))) (step tm e (run tm s evs))"
    by (rule lifecycle_streaming)
  then show ?case by (simp only: run_snoc count_list_snoc)
qed

section \<open>The streamed reply\<close>

lemma singleRun_facts:
  "messages (singleRun tm) ! 1 =
     \<lparr>msg_id = utf16 ''1601'', role = Agent, content = delivered tm responseText\<rparr>
   \<and> intervals (singleRun tm) = [] \<and> \<not> isStreaming (singleRun tm)"
proof -
  let ?s0 = "run tm (mounted (Some demoViewport) demoArea)
      [Typed (utf16 ''hi'') 24, Submit 1000, ReplyTimeout 1600]"
  let ?s1 = "run tm ?s0 (replicate 162 (Tick 0))"
  have split: "singleRun tm = step tm (Tick 0) ?s1"
  proof -
    have "replicate 163 (Tick 0) = replicate 162 (Tick 0) @ [Tick 0]"
      using replicate_add [of 162 1 "Tick 0"] by simp
    then show ?thesis
      by (simp only: singleRun_def run_append run.simps)
  qed
  have "streamInv tm 0 1 (utf16 ''1601'') responseText 0 ?s0"
    by (simp add: streamInv_def streamProgress_def eval_defs responseText_length)
  then have "streamInv tm 0 1 (utf16 ''1601'') responseText (count_list (replicate 162 (Tick 0)) (Tick 0)) ?s1"
    by (rule run_streamInv) simp
  then have "streamInv tm 0 1 (utf16 ''1601'') responseText 162 ?s1"
    by (simp only: count_list_replicate_same)
  then have prog: "streamProgress tm 0 1
      \<lparr>agentMsgId = utf16 ''1601'', sourceText = responseText, counter_i = 162\<rparr> ?s1"
    by (simp add: streamInv_def responseText_length)
  have le: "length responseText \<le> Suc 162"
    by (simp add: responseText_length)
  from tick_last [OF prog le] have d: "streamDone tm 0 1 (utf16 ''1601'') responseText (step tm (Tick 0) ?s1)"
    and ns: "\<not> isStreaming (step tm (Tick 0) ?s1)"
    by simp_all
  have "lifecycle 0 (utf16 ''1601'') 0 (Some 0) ?s0"
    by (simp add: lifecycle_def eval_defs responseText_length)
  from run_lifecycle_ticks [OF this, of 162 tm]
  have "lifecycle 0 (utf16 ''1601'') 0 (Some 162) ?s1" by simp
  from lifecycle_tick [OF this, of 0 tm]
  have "lifecycle 0 (utf16 ''1601'') 0 (Some 163) (step tm (Tick 0) ?s1)" by (simp del: step.simps)
  then have "intervals (step tm (Tick 0) ?s1) = []"
    by (simp add: lifecycle_def responseText_length del: step.simps)
  with d ns split show ?thesis
    by (simp add: streamDone_def del: step.simps)
qed

text \<open>
  C3. When a stream has made as many ticks as its text has characters, its agent message
  should hold the whole text, every character once and in order. The code reads the
  counter \<^verbatim>\<open>i\<close> inside the updater it hands to \<^verbatim>\<open>setMessages\<close> and increments it right
  after the call. When React calls the updater at the next render (\<open>AtRender\<close>), tick
  \<open>k\<close> appends the character at \<open>k + 1\<close>: in \<open>singleRun AtRender\<close>, one message sent and
  its reply run to the last of its 163 ticks, the interval is cleared, the streaming
  flag is off, and the agent message holds the response text without its first character.
  When React calls the updater at once (\<open>Immediate\<close>) the message holds the whole text.
\<close>

theorem first_character_lost:
  "messages (singleRun AtRender) ! 1 =
     \<lparr>msg_id = utf16 ''1601'', role = Agent, content = tl responseText\<rparr>
   \<and> tl responseText \<noteq> responseText
   \<and> intervals (singleRun AtRender) = []
   \<and> \<not> isStreaming (singleRun AtRender)
   \<and> messages (singleRun Immediate) ! 1 =
     \<lparr>msg_id = utf16 ''1601'', role = Agent, content = responseText\<rparr>"
proof -
  have "length (tl responseText) \<noteq> length responseText"
    by (simp add: responseText_length)
  then have "tl responseText \<noteq> responseText"
    by metis
  with singleRun_facts [of AtRender] singleRun_facts [of Immediate] show ?thesis
    by (simp add: delivered_def)
qed

section \<open>The streaming flag\<close>

text \<open>
  C10, as the code has it. A submission of a non-blank input sets the streaming flag at
  once. The flag is cleared only by a tick that brings the counter of its stream to the
  length of that stream's text, and every such tick clears it, whichever stream it
  belongs to; a tick that leaves the counter below the length leaves the flag as it is.
  When a submission is the only one in flight (no reply pending, no interval running,
  and no further submission follows), the flag stays set through the response delay,
  whatever other events \<open>pre\<close> arrive, and after the reply has started it is set exactly
  as long as the reply's interval has ticked fewer times than the response text has
  characters, whatever other events \<open>post\<close> are interleaved with the ticks.
\<close>

theorem isStreaming_single_submit:
  "(trim (input s) \<noteq> [] \<longrightarrow> isStreaming (step tm (Submit t1) s))
   \<and> (isStreaming s' \<and> \<not> isStreaming (step tm e s')
      \<longrightarrow> (\<exists>h st. e = Tick h \<and> map_of (intervals s') h = Some st
                  \<and> length (sourceText st) \<le> Suc (counter_i st)))
   \<and> (map_of (intervals s') h' = Some st'
      \<longrightarrow> (isStreaming (step tm (Tick h') s')
            \<longleftrightarrow> isStreaming s' \<and> Suc (counter_i st') < length (sourceText st')))
   \<and> (replyTimeouts s = 0 \<and> intervals s = [] \<and> trim (input s) \<noteq> []
        \<and> (\<forall>t. Submit t \<notin> set pre \<and> ReplyTimeout t \<notin> set pre) \<and> (\<forall>t. Submit t \<notin> set post)
      \<longrightarrow> isStreaming (run tm s (Submit t1 # pre))
        \<and> (isStreaming (run tm s (Submit t1 # pre @ ReplyTimeout t2 # post))
             \<longleftrightarrow> count_list post (Tick (nextTimerId s)) < length responseText))"
proof -
  have first: "trim (input s) \<noteq> [] \<longrightarrow> isStreaming (step tm (Submit t1) s)"
    by (simp add: sendMessage_fields)
  have only_tick: "\<exists>h st. e = Tick h \<and> map_of (intervals s') h = Some st
      \<and> length (sourceText st) \<le> Suc (counter_i st)"
    if on: "isStreaming s'" and off: "\<not> isStreaming (step tm e s')"
  proof (cases "\<exists>h. e = Tick h")
    case True
    then obtain h where e: "e = Tick h" by blast
    show ?thesis
    proof (cases "map_of (intervals s') h")
      case None
      with e on off show ?thesis by simp
    next
      case (Some st)
      with e on off have "length (sourceText st) \<le> Suc (counter_i st)"
        by (simp add: intervalTick_fields split: if_splits)
      with e Some show ?thesis by blast
    qed
  next
    case nt: False
    consider (sub) now where "e = Submit now" | (rep) t where "e = ReplyTimeout t"
      | (pas) "\<forall>t. e \<noteq> Submit t" "\<forall>t. e \<noteq> ReplyTimeout t"
      by blast
    then show ?thesis
    proof cases
      case sub
      with on off show ?thesis by (simp add: sendMessage_fields split: if_splits)
    next
      case rep
      with on off show ?thesis
        by (simp add: agentReply_def startStream_fields split: if_splits)
    next
      case pas
      with nt have "isStreaming (step tm e s') = isStreaming s' \<and>
          replyTimeouts (step tm e s') = replyTimeouts s' \<and> intervals (step tm e s') = intervals s' \<and>
          nextTimerId (step tm e s') = nextTimerId s' \<and> messages (step tm e s') = messages s'"
        by (intro passive_step_frame) auto
      with on off show ?thesis by simp
    qed
  qed
  have every_tick: "map_of (intervals s') h' = Some st'
      \<longrightarrow> (isStreaming (step tm (Tick h') s')
            \<longleftrightarrow> isStreaming s' \<and> Suc (counter_i st') < length (sourceText st'))"
    by (auto simp: intervalTick_fields)
  have single: "isStreaming (run tm s (Submit t1 # pre))
        \<and> (isStreaming (run tm s (Submit t1 # pre @ ReplyTimeout t2 # post))
             \<longleftrightarrow> count_list post (Tick (nextTimerId s)) < length responseText)"
    if quiet: "replyTimeouts s = 0" "intervals s = []" "trim (input s) \<noteq> []"
      and pre: "\<forall>t. Submit t \<notin> set pre \<and> ReplyTimeout t \<notin> set pre"
      and post: "\<forall>t. Submit t \<notin> set post"
  proof -
    let ?h = "nextTimerId s"
    let ?a = "toString (t2 + 1)"
    let ?w = "run tm (step tm (Submit t1) s) pre"
    from quiet have "lifecycle ?h ?a 0 None (step tm (Submit t1) s)"
      by (rule lifecycle_submit)
    from this pre have w: "lifecycle ?h ?a 0 None ?w"
      by (rule run_lifecycle_waiting)
    then have "lifecycle ?h ?a 0 (Some 0) (step tm (ReplyTimeout t2) ?w)"
      by (rule lifecycle_reply)
    from this post
    have "lifecycle ?h ?a 0 (Some (count_list post (Tick ?h)))
        (run tm (step tm (ReplyTimeout t2) ?w) post)"
      by (rule run_lifecycle_streaming)
    moreover have "run tm s (Submit t1 # pre @ ReplyTimeout t2 # post) =
        run tm (step tm (ReplyTimeout t2) ?w) post"
      by (simp add: run_append del: step.simps)
    ultimately have "lifecycle ?h ?a 0 (Some (count_list post (Tick ?h)))
        (run tm s (Submit t1 # pre @ ReplyTimeout t2 # post))"
      by simp
    then have "isStreaming (run tm s (Submit t1 # pre @ ReplyTimeout t2 # post))
        \<longleftrightarrow> count_list post (Tick ?h) < length responseText"
      by (auto simp: lifecycle_def split: if_splits)
    moreover from w have "isStreaming (run tm s (Submit t1 # pre))"
      by (simp add: lifecycle_def)
    ultimately show ?thesis by simp
  qed
  from first only_tick every_tick single show ?thesis by blast
qed

text \<open>
  An instance: \<open>demoState\<close> with the input "hi" is quiet; the flag is set by the
  submission and stays set after the reply has started and ticked twice. In
  \<open>lastTickState\<close> a second reply is pending and the running stream has made 162 of its
  163 ticks: its next tick clears the flag. In \<open>touchingState\<close> the stream has made 2
  ticks and its next tick leaves the flag set.
\<close>

theorem isStreaming_single_submit_witness:
  "trim (input (demoState\<lparr>input := utf16 ''hi''\<rparr>)) \<noteq> []
   \<and> replyTimeouts (demoState\<lparr>input := utf16 ''hi''\<rparr>) = 0
   \<and> intervals (demoState\<lparr>input := utf16 ''hi''\<rparr>) = []
   \<and> isStreaming (step AtRender (Submit 1000) (demoState\<lparr>input := utf16 ''hi''\<rparr>))
   \<and> isStreaming (run AtRender (demoState\<lparr>input := utf16 ''hi''\<rparr>) (Submit 1000 # [Resize None, TouchStart]))
   \<and> isStreaming (run AtRender (demoState\<lparr>input := utf16 ''hi''\<rparr>)
        (Submit 1000 # [Resize None, TouchStart] @ ReplyTimeout 1600 # [Tick 0, TouchEnd, Tick 0]))
   \<and> count_list [Tick 0, TouchEnd, Tick 0] (Tick (nextTimerId (demoState\<lparr>input := utf16 ''hi''\<rparr>))) = 2
   \<and> isStreaming lastTickState
   \<and> map_of (intervals lastTickState) 0 =
        Some \<lparr>agentMsgId = utf16 ''1601'', sourceText = responseText, counter_i = 162\<rparr>
   \<and> \<not> isStreaming (step AtRender (Tick 0) lastTickState)
   \<and> replyTimeouts (step AtRender (Tick 0) lastTickState) = 1
   \<and> isStreaming (step AtRender (Tick 0) touchingState)"
  using isStreaming_single_submit [of "demoState\<lparr>input := utf16 ''hi''\<rparr>" AtRender 1000
      lastTickState "Tick 0" 0
      "\<lparr>agentMsgId = utf16 ''1601'', sourceText = responseText, counter_i = 162\<rparr>"
      "[Resize None, TouchStart]" "[Tick 0, TouchEnd, Tick 0]" 1600]
    isStreaming_single_submit [of "demoState\<lparr>input := utf16 ''hi''\<rparr>" AtRender 1000
      touchingState "Tick 0" 0
      "\<lparr>agentMsgId = utf16 ''1601'', sourceText = responseText, counter_i = 2\<rparr>"
      "[Resize None, TouchStart]" "[Tick 0, TouchEnd, Tick 0]" 1600]
  by (simp add: demoState_def lastTickState_def touchingState_def trim_def isWhiteSpace_def
      utf16_def responseText_length intervalTick_fields)

lemma overlapRun_facts:
  "\<not> isStreaming (overlapRun tm) \<and> replyTimeouts (overlapRun tm) = 1 \<and> intervals (overlapRun tm) = []
   \<and> \<not> isStreaming (step tm (ReplyTimeout 6600) (overlapRun tm))
   \<and> length (intervals (step tm (ReplyTimeout 6600) (overlapRun tm))) = 1"
proof -
  let ?s0 = "run tm (mounted (Some demoViewport) demoArea) [Typed (utf16 ''a'') 24, Submit 1000, ReplyTimeout 1600]"
  let ?s1 = "run tm ?s0 (replicate 146 (Tick 0))"
  let ?s2 = "run tm ?s1 [Typed (utf16 ''b'') 24, Submit 6000]"
  let ?s3 = "run tm ?s2 (replicate 17 (Tick 0))"
  have split: "overlapRun tm = ?s3"
    by (simp only: overlapRun_def run_append)
  have "lifecycle 0 (utf16 ''1601'') 0 (Some 0) ?s0"
    by (simp add: lifecycle_def eval_defs responseText_length)
  from run_lifecycle_ticks [OF this, of 146 tm]
  have l1: "lifecycle 0 (utf16 ''1601'') 0 (Some 146) ?s1" by simp
  have "trim (utf16 ''b'') \<noteq> []"
    by (simp add: trim_def isWhiteSpace_def utf16_def)
  then have nb: "trim (input (step tm (Typed (utf16 ''b'') 24) ?s1)) \<noteq> []"
    unfolding typed_input .
  from l1 have "lifecycle 0 (utf16 ''1601'') 0 (Some 146) (step tm (Typed (utf16 ''b'') 24) ?s1)"
    by (rule lifecycle_passive) simp_all
  then have "lifecycle 0 (utf16 ''1601'') (Suc 0) (Some 146)
      (step tm (Submit 6000) (step tm (Typed (utf16 ''b'') 24) ?s1))"
    by (rule lifecycle_second_submit) (simp add: responseText_length, rule nb)
  then have "lifecycle 0 (utf16 ''1601'') (Suc 0) (Some 146) ?s2"
    by (simp only: run.simps)
  from run_lifecycle_ticks [OF this, of 17 tm]
  have "lifecycle 0 (utf16 ''1601'') (Suc 0) (Some 163) ?s3" by simp
  then have fin: "\<not> isStreaming ?s3 \<and> replyTimeouts ?s3 = 1 \<and> intervals ?s3 = []"
    by (simp add: lifecycle_def responseText_length)
  then have "\<not> isStreaming (step tm (ReplyTimeout 6600) ?s3)
      \<and> length (intervals (step tm (ReplyTimeout 6600) ?s3)) = 1"
    by (simp add: agentReply_def startStream_fields)
  with fin split show ?thesis by simp
qed

text \<open>
  C10 as stated fails. In \<open>overlapRun\<close> a second message is sent while the first reply is
  streaming. When the first reply makes its last tick the flag is cleared although the
  second reply is still pending; it stays cleared when the second reply starts, so a
  stream is running with the flag off. This is so under either updater timing.
\<close>

theorem overlapping_streams_counterexample:
  "\<not> isStreaming (overlapRun AtRender) \<and> replyTimeouts (overlapRun AtRender) = 1
   \<and> \<not> isStreaming (step AtRender (ReplyTimeout 6600) (overlapRun AtRender))
   \<and> length (intervals (step AtRender (ReplyTimeout 6600) (overlapRun AtRender))) = 1
   \<and> \<not> isStreaming (overlapRun Immediate) \<and> replyTimeouts (overlapRun Immediate) = 1
   \<and> \<not> isStreaming (step Immediate (ReplyTimeout 6600) (overlapRun Immediate))
   \<and> length (intervals (step Immediate (ReplyTimeout 6600) (overlapRun Immediate))) = 1"
  using overlapRun_facts [of AtRender] overlapRun_facts [of Immediate] by blast

section \<open>A submission while a reply is streaming\<close>

lemma count_list_withoutSubmissions:
  "count_list (withoutSubmissions evs) (Tick h) = count_list evs (Tick h)"
  by (induction evs) (simp_all add: withoutSubmissions_def)

lemma step_replyTimeouts_mono:
  assumes "\<forall>t. e \<noteq> ReplyTimeout t"
  shows "replyTimeouts s \<le> replyTimeouts (step tm e s)"
proof (cases "(\<exists>t. e = Submit t) \<or> (\<exists>h. e = Tick h)")
  case True
  then show ?thesis
    by (auto simp: sendMessage_fields intervalTick_fields split: option.splits)
next
  case False
  with assms have "isStreaming (step tm e s) = isStreaming s \<and>
      replyTimeouts (step tm e s) = replyTimeouts s \<and> intervals (step tm e s) = intervals s \<and>
      nextTimerId (step tm e s) = nextTimerId s \<and> messages (step tm e s) = messages s"
    by (intro passive_step_frame) auto
  then show ?thesis by simp
qed

lemma run_replyTimeouts_mono:
  assumes "\<forall>t. ReplyTimeout t \<notin> set evs"
  shows "replyTimeouts s \<le> replyTimeouts (run tm s evs)"
  using assms
proof (induction evs rule: rev_induct)
  case Nil
  show ?case by simp
next
  case (snoc e evs)
  then have "replyTimeouts s \<le> replyTimeouts (run tm s evs)" by simp
  moreover from snoc.prems have "\<forall>t. e \<noteq> ReplyTimeout t" by auto
  then have "replyTimeouts (run tm s evs) \<le> replyTimeouts (step tm e (run tm s evs))"
    by (rule step_replyTimeouts_mono)
  ultimately show ?case by (simp only: run_snoc)
qed

lemma reply_fields:
  assumes "0 < replyTimeouts s"
  shows "intervals (step tm (ReplyTimeout t) s) =
           intervals s @ [(nextTimerId s,
             \<lparr>agentMsgId = toString (t + 1), sourceText = responseText, counter_i = 0\<rparr>)]"
    and "messages (step tm (ReplyTimeout t) s) =
           messages s @ [\<lparr>msg_id = toString (t + 1), role = Agent, content = []\<rparr>]"
  using assms by (simp_all add: agentReply_def startStream_fields)

text \<open>
  The reply started by a timeout, followed through any later events: after \<open>n\<close> ticks of
  its interval its message holds the first \<open>n\<close> characters of what the stream delivers,
  and the interval is running, with counter \<open>n\<close>, exactly while \<open>n\<close> is below the length of
  the response text.
\<close>

lemma reply_run:
  assumes "0 < replyTimeouts s"
    and "\<forall>p\<in>set (intervals s). fst p < nextTimerId s"
    and "\<forall>p\<in>set (intervals s). agentMsgId (snd p) \<noteq> toString (t0 + 1)"
    and "\<forall>t. ReplyTimeout t \<in> set evs \<longrightarrow> toString (t + 1) \<noteq> toString (t0 + 1)"
  shows "messages (run tm s (ReplyTimeout t0 # evs)) ! length (messages s) =
           \<lparr>msg_id = toString (t0 + 1), role = Agent,
            content = take (count_list evs (Tick (nextTimerId s))) (delivered tm responseText)\<rparr>"
    and "map_of (intervals (run tm s (ReplyTimeout t0 # evs))) (nextTimerId s) =
           (if count_list evs (Tick (nextTimerId s)) < length responseText
            then Some \<lparr>agentMsgId = toString (t0 + 1), sourceText = responseText,
                        counter_i = count_list evs (Tick (nextTimerId s))\<rparr>
            else None)"
proof -
  let ?h = "nextTimerId s"
  let ?n = "count_list evs (Tick ?h)"
  let ?s1 = "s\<lparr>replyTimeouts := replyTimeouts s - 1\<rparr>"
  from assms(2,3)
  have "streamInv tm (nextTimerId ?s1) (length (messages ?s1)) (toString (t0 + 1)) responseText 0
      (startStream responseText t0 ?s1)"
    by (intro startStream_inv) simp_all
  then have "streamInv tm ?h (length (messages s)) (toString (t0 + 1)) responseText 0
      (agentReply t0 ?s1)"
    by (simp add: agentReply_def)
  then have "streamInv tm ?h (length (messages s)) (toString (t0 + 1)) responseText 0
      (scrollToBottomEffect (agentReply t0 ?s1))"
    by (rule streamInv_frame) simp_all
  with assms(1)
  have "streamInv tm ?h (length (messages s)) (toString (t0 + 1)) responseText 0
      (step tm (ReplyTimeout t0) s)"
    by simp
  from this assms(4)
  have "streamInv tm ?h (length (messages s)) (toString (t0 + 1)) responseText ?n
      (run tm (step tm (ReplyTimeout t0) s) evs)"
    by (rule run_streamInv)
  then have inv: "streamInv tm ?h (length (messages s)) (toString (t0 + 1)) responseText ?n
      (run tm s (ReplyTimeout t0 # evs))"
    by (simp del: step.simps)
  show "messages (run tm s (ReplyTimeout t0 # evs)) ! length (messages s) =
           \<lparr>msg_id = toString (t0 + 1), role = Agent,
            content = take ?n (delivered tm responseText)\<rparr>"
  proof (cases "?n < length responseText")
    case True
    with inv show ?thesis
      by (simp add: streamInv_def streamProgress_def responseText_length del: run.simps)
  next
    case False
    then have "length responseText \<le> ?n" by simp
    then have "take ?n (delivered tm responseText) = delivered tm responseText"
      by (rule delivered_all)
    with False inv show ?thesis
      by (simp add: streamInv_def streamDone_def responseText_length del: run.simps)
  qed
  show "map_of (intervals (run tm s (ReplyTimeout t0 # evs))) ?h =
           (if ?n < length responseText
            then Some \<lparr>agentMsgId = toString (t0 + 1), sourceText = responseText, counter_i = ?n\<rparr>
            else None)"
  proof (cases "?n < length responseText")
    case True
    with inv show ?thesis
      by (simp add: streamInv_def streamProgress_def responseText_length del: run.simps)
  next
    case False
    with inv show ?thesis
      by (simp add: streamInv_def streamDone_def responseText_length del: run.simps)
  qed
qed

text \<open>
  C4, as the code has it. A submission of a non-blank input is accepted whether or not a
  reply is streaming: it appends the user message, clears the input, sets the streaming
  flag and schedules one more reply, and it leaves the running intervals (target id,
  text and counter of each) as they are. When the next reply timeout fires, after any
  events \<open>mid\<close> that are not reply timeouts, an empty agent message is appended and one
  more interval is started, beside the intervals that are still running then.

  The reply that is streaming is unaffected by all of this. Let a reply start at time
  \<open>t0\<close> in a state \<open>s0\<close> where no running interval targets its message id, and let any
  events \<open>evs\<close> follow, among them any submissions and the replies they start, as long as
  those replies get another message id. Then the reply keeps its message (the one at
  position \<open>length (messages s0)\<close>), after \<open>n\<close> ticks of its interval that message holds the
  first \<open>n\<close> characters of what the stream delivers, the interval runs with counter \<open>n\<close>
  exactly while \<open>n\<close> is below the length of the response text, and from then on the
  message holds all that the stream delivers. Message and interval are the ones of the
  run \<open>withoutSubmissions evs\<close>, in which nothing is submitted after the reply has started.
\<close>

theorem submit_while_streaming:
  "(trim (input s) \<noteq> [] \<longrightarrow>
      messages (step tm (Submit now) s) =
        messages s @ [\<lparr>msg_id = toString now, role = User, content = input s\<rparr>]
      \<and> input (step tm (Submit now) s) = []
      \<and> isStreaming (step tm (Submit now) s)
      \<and> replyTimeouts (step tm (Submit now) s) = replyTimeouts s + 1
      \<and> intervals (step tm (Submit now) s) = intervals s
      \<and> nextTimerId (step tm (Submit now) s) = nextTimerId s)
   \<and> (trim (input s) \<noteq> [] \<and> (\<forall>t. ReplyTimeout t \<notin> set mid) \<longrightarrow>
      intervals (run tm s (Submit now # mid @ [ReplyTimeout t1])) =
        intervals (run tm s (Submit now # mid)) @
          [(nextTimerId (run tm s (Submit now # mid)),
            \<lparr>agentMsgId = toString (t1 + 1), sourceText = responseText, counter_i = 0\<rparr>)]
      \<and> messages (run tm s (Submit now # mid @ [ReplyTimeout t1])) =
        messages (run tm s (Submit now # mid)) @
          [\<lparr>msg_id = toString (t1 + 1), role = Agent, content = []\<rparr>])
   \<and> (0 < replyTimeouts s0
        \<and> (\<forall>p\<in>set (intervals s0). fst p < nextTimerId s0 \<and> agentMsgId (snd p) \<noteq> toString (t0 + 1))
        \<and> (\<forall>t. ReplyTimeout t \<in> set evs \<longrightarrow> toString (t + 1) \<noteq> toString (t0 + 1)) \<longrightarrow>
      messages (run tm s0 (ReplyTimeout t0 # evs)) ! length (messages s0) =
        \<lparr>msg_id = toString (t0 + 1), role = Agent,
         content = take (count_list evs (Tick (nextTimerId s0))) (delivered tm responseText)\<rparr>
      \<and> map_of (intervals (run tm s0 (ReplyTimeout t0 # evs))) (nextTimerId s0) =
        (if count_list evs (Tick (nextTimerId s0)) < length responseText
         then Some \<lparr>agentMsgId = toString (t0 + 1), sourceText = responseText,
                     counter_i = count_list evs (Tick (nextTimerId s0))\<rparr>
         else None)
      \<and> (length responseText \<le> count_list evs (Tick (nextTimerId s0)) \<longrightarrow>
           content (messages (run tm s0 (ReplyTimeout t0 # evs)) ! length (messages s0)) =
             delivered tm responseText)
      \<and> messages (run tm s0 (ReplyTimeout t0 # evs)) ! length (messages s0) =
        messages (run tm s0 (ReplyTimeout t0 # withoutSubmissions evs)) ! length (messages s0)
      \<and> map_of (intervals (run tm s0 (ReplyTimeout t0 # evs))) (nextTimerId s0) =
        map_of (intervals (run tm s0 (ReplyTimeout t0 # withoutSubmissions evs))) (nextTimerId s0))"
proof -
  have accepted: "messages (step tm (Submit now) s) =
        messages s @ [\<lparr>msg_id = toString now, role = User, content = input s\<rparr>]
      \<and> input (step tm (Submit now) s) = []
      \<and> isStreaming (step tm (Submit now) s)
      \<and> replyTimeouts (step tm (Submit now) s) = replyTimeouts s + 1
      \<and> intervals (step tm (Submit now) s) = intervals s
      \<and> nextTimerId (step tm (Submit now) s) = nextTimerId s"
    if "trim (input s) \<noteq> []"
    using that by (simp add: sendMessage_fields)
  have begins: "intervals (run tm s (Submit now # mid @ [ReplyTimeout t1])) =
        intervals (run tm s (Submit now # mid)) @
          [(nextTimerId (run tm s (Submit now # mid)),
            \<lparr>agentMsgId = toString (t1 + 1), sourceText = responseText, counter_i = 0\<rparr>)]
      \<and> messages (run tm s (Submit now # mid @ [ReplyTimeout t1])) =
        messages (run tm s (Submit now # mid)) @
          [\<lparr>msg_id = toString (t1 + 1), role = Agent, content = []\<rparr>]"
    if nb: "trim (input s) \<noteq> []" and mid: "\<forall>t. ReplyTimeout t \<notin> set mid"
  proof -
    let ?w = "run tm s (Submit now # mid)"
    from nb have "0 < replyTimeouts (step tm (Submit now) s)"
      by (simp add: sendMessage_fields)
    moreover from mid
    have "replyTimeouts (step tm (Submit now) s) \<le> replyTimeouts (run tm (step tm (Submit now) s) mid)"
      by (rule run_replyTimeouts_mono)
    ultimately have "0 < replyTimeouts ?w" by (simp del: step.simps)
    then have "intervals (step tm (ReplyTimeout t1) ?w) =
          intervals ?w @ [(nextTimerId ?w,
            \<lparr>agentMsgId = toString (t1 + 1), sourceText = responseText, counter_i = 0\<rparr>)]"
      and "messages (step tm (ReplyTimeout t1) ?w) =
          messages ?w @ [\<lparr>msg_id = toString (t1 + 1), role = Agent, content = []\<rparr>]"
      by (rule reply_fields)+
    moreover have "run tm s (Submit now # mid @ [ReplyTimeout t1]) = step tm (ReplyTimeout t1) ?w"
      using run_snoc [of tm s "Submit now # mid" "ReplyTimeout t1"] by simp
    ultimately show ?thesis by simp
  qed
  have unaffected: "messages (run tm s0 (ReplyTimeout t0 # evs)) ! length (messages s0) =
        \<lparr>msg_id = toString (t0 + 1), role = Agent,
         content = take (count_list evs (Tick (nextTimerId s0))) (delivered tm responseText)\<rparr>
      \<and> map_of (intervals (run tm s0 (ReplyTimeout t0 # evs))) (nextTimerId s0) =
        (if count_list evs (Tick (nextTimerId s0)) < length responseText
         then Some \<lparr>agentMsgId = toString (t0 + 1), sourceText = responseText,
                     counter_i = count_list evs (Tick (nextTimerId s0))\<rparr>
         else None)
      \<and> (length responseText \<le> count_list evs (Tick (nextTimerId s0)) \<longrightarrow>
           content (messages (run tm s0 (ReplyTimeout t0 # evs)) ! length (messages s0)) =
             delivered tm responseText)
      \<and> messages (run tm s0 (ReplyTimeout t0 # evs)) ! length (messages s0) =
        messages (run tm s0 (ReplyTimeout t0 # withoutSubmissions evs)) ! length (messages s0)
      \<and> map_of (intervals (run tm s0 (ReplyTimeout t0 # evs))) (nextTimerId s0) =
        map_of (intervals (run tm s0 (ReplyTimeout t0 # withoutSubmissions evs))) (nextTimerId s0)"
    if pend: "0 < replyTimeouts s0"
      and own: "\<forall>p\<in>set (intervals s0). fst p < nextTimerId s0 \<and> agentMsgId (snd p) \<noteq> toString (t0 + 1)"
      and ids: "\<forall>t. ReplyTimeout t \<in> set evs \<longrightarrow> toString (t + 1) \<noteq> toString (t0 + 1)"
  proof -
    let ?h = "nextTimerId s0"
    let ?n = "count_list evs (Tick ?h)"
    from own have fresh: "\<forall>p\<in>set (intervals s0). fst p < nextTimerId s0"
      and excl: "\<forall>p\<in>set (intervals s0). agentMsgId (snd p) \<noteq> toString (t0 + 1)"
      by auto
    have none: "\<forall>t. ReplyTimeout t \<in> set (withoutSubmissions evs) \<longrightarrow>
        toString (t + 1) \<noteq> toString (t0 + 1)"
      by (simp add: withoutSubmissions_def)
    have m: "messages (run tm s0 (ReplyTimeout t0 # evs)) ! length (messages s0) =
        \<lparr>msg_id = toString (t0 + 1), role = Agent, content = take ?n (delivered tm responseText)\<rparr>"
      using pend fresh excl ids by (rule reply_run(1))
    have i: "map_of (intervals (run tm s0 (ReplyTimeout t0 # evs))) ?h =
        (if ?n < length responseText
         then Some \<lparr>agentMsgId = toString (t0 + 1), sourceText = responseText, counter_i = ?n\<rparr>
         else None)"
      using pend fresh excl ids by (rule reply_run(2))
    have m': "messages (run tm s0 (ReplyTimeout t0 # withoutSubmissions evs)) ! length (messages s0) =
        \<lparr>msg_id = toString (t0 + 1), role = Agent, content = take ?n (delivered tm responseText)\<rparr>"
      using reply_run(1) [OF pend fresh excl none, of tm]
      by (simp only: count_list_withoutSubmissions)
    have i': "map_of (intervals (run tm s0 (ReplyTimeout t0 # withoutSubmissions evs))) ?h =
        (if ?n < length responseText
         then Some \<lparr>agentMsgId = toString (t0 + 1), sourceText = responseText, counter_i = ?n\<rparr>
         else None)"
      using reply_run(2) [OF pend fresh excl none, of tm]
      by (simp only: count_list_withoutSubmissions)
    have fin: "content (messages (run tm s0 (ReplyTimeout t0 # evs)) ! length (messages s0)) =
        delivered tm responseText" if "length responseText \<le> ?n"
    proof -
      from that have "take ?n (delivered tm responseText) = delivered tm responseText"
        by (rule delivered_all)
      with m show ?thesis by simp
    qed
    from m i fin m' i' show ?thesis by (simp only:) simp
  qed
  from accepted begins unaffected show ?thesis by blast
qed

text \<open>
  An instance. In \<open>touchingState\<close> a reply is streaming; "more" is submitted at 2000, a
  tick of the running interval follows, and the timeout at 2600 starts a second interval
  beside it. For the other part, "a" has been submitted at 1000 and its reply starts at
  1600; a second message is submitted at 2000 and its reply starts at 2600 and ticks;
  after three ticks of its own the first reply holds the same three characters as in the
  run without the second submission.
\<close>

theorem submit_while_streaming_witness:
  "trim (input (touchingState\<lparr>input := utf16 ''more''\<rparr>)) \<noteq> []
   \<and> messages (step AtRender (Submit 2000) (touchingState\<lparr>input := utf16 ''more''\<rparr>)) =
       [\<lparr>msg_id = utf16 ''1000'', role = User, content = utf16 ''hi''\<rparr>,
        \<lparr>msg_id = utf16 ''1601'', role = Agent, content = utf16 ''He''\<rparr>,
        \<lparr>msg_id = utf16 ''2000'', role = User, content = utf16 ''more''\<rparr>]
   \<and> input (step AtRender (Submit 2000) (touchingState\<lparr>input := utf16 ''more''\<rparr>)) = []
   \<and> isStreaming (step AtRender (Submit 2000) (touchingState\<lparr>input := utf16 ''more''\<rparr>))
   \<and> replyTimeouts (step AtRender (Submit 2000) (touchingState\<lparr>input := utf16 ''more''\<rparr>)) = 1
   \<and> intervals (step AtRender (Submit 2000) (touchingState\<lparr>input := utf16 ''more''\<rparr>)) =
       [(0, \<lparr>agentMsgId = utf16 ''1601'', sourceText = responseText, counter_i = 2\<rparr>)]
   \<and> intervals (run AtRender (touchingState\<lparr>input := utf16 ''more''\<rparr>)
        (Submit 2000 # [Tick 0] @ [ReplyTimeout 2600])) =
       [(0, \<lparr>agentMsgId = utf16 ''1601'', sourceText = responseText, counter_i = 3\<rparr>),
        (1, \<lparr>agentMsgId = utf16 ''2601'', sourceText = responseText, counter_i = 0\<rparr>)]
   \<and> replyTimeouts (run AtRender (mounted (Some demoViewport) demoArea)
        [Typed (utf16 ''a'') 24, Submit 1000]) = 1
   \<and> intervals (run AtRender (mounted (Some demoViewport) demoArea)
        [Typed (utf16 ''a'') 24, Submit 1000]) = []
   \<and> withoutSubmissions [Tick 0, Typed (utf16 ''b'') 24, Submit 2000, Tick 0, ReplyTimeout 2600,
        Tick 1, Tick 0] = [Tick 0, Typed (utf16 ''b'') 24, Tick 0, Tick 1, Tick 0]
   \<and> toString (2600 + 1) \<noteq> toString (1600 + 1)
   \<and> messages (run AtRender (run AtRender (mounted (Some demoViewport) demoArea)
          [Typed (utf16 ''a'') 24, Submit 1000])
        (ReplyTimeout 1600 # [Tick 0, Typed (utf16 ''b'') 24, Submit 2000, Tick 0, ReplyTimeout 2600,
          Tick 1, Tick 0])) ! 1 =
       \<lparr>msg_id = utf16 ''1601'', role = Agent, content = utf16 ''ere''\<rparr>
   \<and> messages (run AtRender (run AtRender (mounted (Some demoViewport) demoArea)
          [Typed (utf16 ''a'') 24, Submit 1000])
        (ReplyTimeout 1600 # [Tick 0, Typed (utf16 ''b'') 24, Tick 0, Tick 1, Tick 0])) ! 1 =
       \<lparr>msg_id = utf16 ''1601'', role = Agent, content = utf16 ''ere''\<rparr>"
  using submit_while_streaming [of "touchingState\<lparr>input := utf16 ''more''\<rparr>" AtRender 2000
      "[Tick 0]" 2600
      "run AtRender (mounted (Some demoViewport) demoArea) [Typed (utf16 ''a'') 24, Submit 1000]"
      1600
      "[Tick 0, Typed (utf16 ''b'') 24, Submit 2000, Tick 0, ReplyTimeout 2600, Tick 1, Tick 0]"]
  by (simp add: touchingState_def eval_defs withoutSubmissions_def delivered_def
      responseText_length responseText_charAt)

text \<open>
  C4 as stated fails. A message is sent at 1000 and its reply starts at 1600 and makes a
  tick; the flag is set and one interval is running. A second message sent at 2000 is
  not rejected: its reply starts at 2600 as a second interval, and both intervals then
  append to their messages.
\<close>

theorem second_submit_counterexample:
  "isStreaming (run AtRender (mounted (Some demoViewport) demoArea)
      [Typed (utf16 ''a'') 24, Submit 1000, ReplyTimeout 1600, Tick 0, Typed (utf16 ''b'') 24])
   \<and> map fst (intervals (run AtRender (mounted (Some demoViewport) demoArea)
      [Typed (utf16 ''a'') 24, Submit 1000, ReplyTimeout 1600, Tick 0, Typed (utf16 ''b'') 24])) = [0]
   \<and> map fst (intervals (run AtRender (mounted (Some demoViewport) demoArea)
      [Typed (utf16 ''a'') 24, Submit 1000, ReplyTimeout 1600, Tick 0, Typed (utf16 ''b'') 24,
       Submit 2000, ReplyTimeout 2600])) = [0, 1]
   \<and> map (\<lambda>m. (role m, content m)) (messages (run AtRender (mounted (Some demoViewport) demoArea)
      [Typed (utf16 ''a'') 24, Submit 1000, ReplyTimeout 1600, Tick 0, Typed (utf16 ''b'') 24,
       Submit 2000, ReplyTimeout 2600, Tick 1, Tick 0])) =
       [(User, utf16 ''a''), (Agent, utf16 ''er''), (User, utf16 ''b''), (Agent, utf16 ''e'')]
   \<and> map (\<lambda>m. (role m, content m)) (messages (run Immediate (mounted (Some demoViewport) demoArea)
      [Typed (utf16 ''a'') 24, Submit 1000, ReplyTimeout 1600, Tick 0, Typed (utf16 ''b'') 24,
       Submit 2000, ReplyTimeout 2600, Tick 1, Tick 0])) =
       [(User, utf16 ''a''), (Agent, utf16 ''He''), (User, utf16 ''b''), (Agent, utf16 ''H'')]"
  by (simp add: eval_defs responseText_length responseText_charAt)

section \<open>The message store\<close>

lemma appendChar_keeps:
  "msg_id (appendChar st k m) = msg_id m" "role (appendChar st k m) = role m"
  "take (length (content m)) (content (appendChar st k m)) = content m"
  by (simp_all add: appendChar_def)

text \<open>
  No callback removes or reorders a message or changes an id or a role, and a content
  only grows at its end.
\<close>

lemma step_messages_append_only:
  "length (messages s) \<le> length (messages (step tm e s))
   \<and> (\<forall>i<length (messages s).
        msg_id (messages (step tm e s) ! i) = msg_id (messages s ! i)
        \<and> role (messages (step tm e s) ! i) = role (messages s ! i)
        \<and> take (length (content (messages s ! i))) (content (messages (step tm e s) ! i)) =
            content (messages s ! i))"
proof (cases e)
  case (Submit t)
  then show ?thesis by (simp add: sendMessage_fields nth_append)
next
  case (ReplyTimeout t)
  then show ?thesis by (simp add: agentReply_def startStream_fields nth_append)
next
  case (Tick h)
  then show ?thesis
    by (cases "map_of (intervals s) h") (simp_all add: intervalTick_fields appendChar_keeps)
qed (simp_all add: handleTouchStart_def handleTouchEnd_def split: option.splits)

text \<open>A tick leaves every message with another id than its target as it is.\<close>

lemma tick_changes_only_target:
  assumes "map_of (intervals s) h = Some st" and "i < length (messages s)"
    and "msg_id (messages s ! i) \<noteq> agentMsgId st"
  shows "messages (step tm (Tick h) s) ! i = messages s ! i"
  using assms by (simp add: intervalTick_fields appendChar_def)

text \<open>
  C8. Every operation on the message store should keep the stored messages, their ids,
  roles and order, and change the content of at most one message, by appending to it.
  The first parts hold (\<open>step_messages_append_only\<close>). A tick appends to every message
  that carries the stream's target id, and ids come from the clock: the user message
  gets \<^verbatim>\<open>Date.now()\<close> and the agent message \<^verbatim>\<open>Date.now() + 1\<close>. A message is sent at 1000,
  its reply starts at 1600 with the id 1601, and a second message is sent at 1601: the
  store then holds two messages with the id 1601, and the next tick grows the agent
  message and the second user message together, under either updater timing.
\<close>

theorem colliding_ids_tick:
  "messages (run AtRender (mounted (Some demoViewport) demoArea)
      [Typed (utf16 ''a'') 24, Submit 1000, ReplyTimeout 1600, Typed (utf16 ''b'') 24, Submit 1601]) =
     [\<lparr>msg_id = utf16 ''1000'', role = User, content = utf16 ''a''\<rparr>,
      \<lparr>msg_id = utf16 ''1601'', role = Agent, content = []\<rparr>,
      \<lparr>msg_id = utf16 ''1601'', role = User, content = utf16 ''b''\<rparr>]
   \<and> messages (run AtRender (mounted (Some demoViewport) demoArea)
      [Typed (utf16 ''a'') 24, Submit 1000, ReplyTimeout 1600, Typed (utf16 ''b'') 24, Submit 1601, Tick 0]) =
     [\<lparr>msg_id = utf16 ''1000'', role = User, content = utf16 ''a''\<rparr>,
      \<lparr>msg_id = utf16 ''1601'', role = Agent, content = utf16 ''e''\<rparr>,
      \<lparr>msg_id = utf16 ''1601'', role = User, content = utf16 ''be''\<rparr>]
   \<and> messages (run Immediate (mounted (Some demoViewport) demoArea)
      [Typed (utf16 ''a'') 24, Submit 1000, ReplyTimeout 1600, Typed (utf16 ''b'') 24, Submit 1601, Tick 0]) =
     [\<lparr>msg_id = utf16 ''1000'', role = User, content = utf16 ''a''\<rparr>,
      \<lparr>msg_id = utf16 ''1601'', role = Agent, content = utf16 ''H''\<rparr>,
      \<lparr>msg_id = utf16 ''1601'', role = User, content = utf16 ''bH''\<rparr>]"
  by (simp add: eval_defs responseText_length responseText_charAt)

section \<open>Timer handles\<close>

text \<open>
  The handles of the running intervals lie below the next handle to be given out: this
  holds after mounting and every callback keeps it.
\<close>

lemma step_timers_fresh:
  assumes "\<forall>p\<in>set (intervals s). fst p < nextTimerId s"
  shows "\<forall>p\<in>set (intervals (step tm e s)). fst p < nextTimerId (step tm e s)"
proof (cases "\<exists>h. e = Tick h")
  case True
  then obtain h where e: "e = Tick h" by blast
  show ?thesis
  proof
    fix p assume "p \<in> set (intervals (step tm e s))"
    with e have "p \<in> set (intervals s) \<or>
        (\<exists>k. p \<in> set (setCounter h k (intervals s)))"
      by (cases "map_of (intervals s) h")
         (auto simp: intervalTick_fields dest: set_clearInterval split: if_splits)
    then obtain q where "q \<in> set (intervals s)" "fst q = fst p"
      using set_setCounter by blast
    with assms e show "fst p < nextTimerId (step tm e s)"
      by (auto simp only: tick_nextTimerId)
  qed
next
  case nt: False
  consider (sub) now where "e = Submit now" | (rep) t where "e = ReplyTimeout t"
    | (pas) "\<forall>t. e \<noteq> Submit t" "\<forall>t. e \<noteq> ReplyTimeout t"
    by blast
  then show ?thesis
  proof cases
    case sub
    with assms show ?thesis by (simp add: sendMessage_fields)
  next
    case rep
    with assms show ?thesis by (auto simp: agentReply_def startStream_fields)
  next
    case pas
    with nt have "isStreaming (step tm e s) = isStreaming s \<and>
        replyTimeouts (step tm e s) = replyTimeouts s \<and> intervals (step tm e s) = intervals s \<and>
        nextTimerId (step tm e s) = nextTimerId s \<and> messages (step tm e s) = messages s"
      by (intro passive_step_frame) auto
    with assms show ?thesis by simp
  qed
qed

lemma run_timers_fresh:
  "\<forall>p\<in>set (intervals s). fst p < nextTimerId s \<Longrightarrow>
   \<forall>p\<in>set (intervals (run tm s evs)). fst p < nextTimerId (run tm s evs)"
proof (induction evs arbitrary: s)
  case Nil
  then show ?case by simp
next
  case (Cons e evs)
  from Cons.prems have "\<forall>p\<in>set (intervals (step tm e s)). fst p < nextTimerId (step tm e s)"
    by (rule step_timers_fresh)
  then show ?case using Cons.IH by (simp del: step.simps)
qed

lemma mounted_timers_fresh:
  "\<forall>p\<in>set (intervals (run tm (mounted vvo a) evs)).
     fst p < nextTimerId (run tm (mounted vvo a) evs)"
  by (rule run_timers_fresh) (simp add: mounted_def)

end
